theory Spec2Isabelle
  imports Main
begin

section \<open>Python strings\<close>

text \<open>
  Python \<open>str\<close> and \<open>bytes\<close> values are modelled as HOL strings. The character
  classes below are those of Python on ASCII text: \<open>str.lower\<close> maps \<open>A-Z\<close> to
  \<open>a-z\<close>, \<open>\s\<close> and \<open>str.strip\<close> know the six ASCII blanks and the four
  separators \<open>0x1C-0x1F\<close>, \<open>\w\<close> is a letter, a digit or the underscore, \<open>\d\<close> a digit.
\<close>

definition lower_char :: "char \<Rightarrow> char" where
  "lower_char c =
     (case map_of (zip ''ABCDEFGHIJKLMNOPQRSTUVWXYZ'' ''abcdefghijklmnopqrstuvwxyz'') c of
        None \<Rightarrow> c
      | Some d \<Rightarrow> d)"

definition lower :: "string \<Rightarrow> string" where
  "lower s = map lower_char s"

definition is_space :: "char \<Rightarrow> bool" where
  "is_space c \<longleftrightarrow>
     c \<in> set [CHR 0x09, CHR 0x0A, CHR 0x0B, CHR 0x0C, CHR 0x0D, CHR 0x1C, CHR 0x1D, CHR 0x1E,
              CHR 0x1F, CHR '' '']"

definition is_digit :: "char \<Rightarrow> bool" where
  "is_digit c \<longleftrightarrow> c \<in> set ''0123456789''"

definition is_word :: "char \<Rightarrow> bool" where
  "is_word c \<longleftrightarrow>
     c \<in> set ''abcdefghijklmnopqrstuvwxyzABCDEFGHIJKLMNOPQRSTUVWXYZ0123456789_''"

definition strip :: "string \<Rightarrow> string" where
  "strip s = rev (dropWhile is_space (rev (dropWhile is_space s)))"

definition startswith :: "string \<Rightarrow> string \<Rightarrow> bool" where
  "startswith s p \<longleftrightarrow> take (length p) s = p"

definition endswith :: "string \<Rightarrow> string \<Rightarrow> bool" where
  "endswith s p \<longleftrightarrow> length p \<le> length s \<and> drop (length s - length p) s = p"

text \<open>\<open>contains s p\<close> is Python's \<open>p in s\<close>.\<close>

fun contains :: "string \<Rightarrow> string \<Rightarrow> bool" where
  "contains [] p \<longleftrightarrow> p = []"
| "contains (c # cs) p \<longleftrightarrow> startswith (c # cs) p \<or> contains cs p"

text \<open>\<open>replace s old new\<close> is \<open>s.replace(old, new)\<close>: every occurrence, left to right.\<close>

fun replace :: "string \<Rightarrow> string \<Rightarrow> string \<Rightarrow> string" where
  "replace [] old new = (if old = [] then new else [])"
| "replace (c # cs) old new =
     (if old = [] then new @ c # replace cs old new
      else if startswith (c # cs) old then new @ replace (drop (length old - 1) cs) old new
      else c # replace cs old new)"

text \<open>
  A value read from a dictionary or a JSON object is absent, or a string; Python takes the
  absent and the empty one for false. \<open>por a b\<close> is \<open>a or b\<close>, \<open>str_of v\<close> is \<open>v or ""\<close>.
\<close>

definition truthy :: "string option \<Rightarrow> bool" where
  "truthy v \<longleftrightarrow> v \<noteq> None \<and> v \<noteq> Some []"

definition por :: "string option \<Rightarrow> string option \<Rightarrow> string option" where
  "por a b = (if truthy a then a else b)"

definition str_of :: "string option \<Rightarrow> string" where
  "str_of v = (case v of None \<Rightarrow> [] | Some s \<Rightarrow> s)"

fun show_nat :: "nat \<Rightarrow> string" where
  "show_nat n =
     (if n < 10 then [''0123456789'' ! n]
      else show_nat (n div 10) @ [''0123456789'' ! (n mod 10)])"

declare show_nat.simps [simp del]


section \<open>The network and the file system\<close>

text \<open>
  The programs talk to the network through \<open>requests.get\<close> and \<open>requests.head\<close>. A run
  is modelled against a script of replies: every request takes the next reply of the script
  and is recorded in the list of calls, tagged with the stage of the program that issued it.
  A reply is a response or a raised exception with its message; a request made when the
  script is exhausted fails like a lost connection. No reply depends on the tag.
\<close>

datatype stage =
  Api_lookup | Content_negotiation | Candidate_probe | Landing_scrape | Download | Repair

datatype verb = GET | HEAD

datatype request = Request (stage_of: stage) (verb_of: verb) (target: string)

text \<open>\<open>iter_content\<close> yields chunks and may raise in the middle of the stream.\<close>

datatype piece = Chunk string | Broken string

text \<open>An element of the parsed page: its name and its attribute dictionary.\<close>

record tag =
  tag_name :: string
  attrs :: "(string \<times> string) list"

text \<open>The Unpaywall answer: \<open>best_oa_location\<close> and \<open>oa_locations\<close>.\<close>

record oa_location =
  url_for_pdf :: "string option"
  loc_url :: "string option"

record unpaywall =
  best_oa_location :: "oa_location option"
  oa_locations :: "oa_location list option"

text \<open>
  What the programs read of a response: \<open>status_code\<close>, the \<open>Content-Type\<close> header,
  \<open>r.url\<close> after redirects, \<open>r.raw.read(4)\<close>, \<open>r.text\<close>, the result of
  \<open>BeautifulSoup(r.text, "html.parser")\<close> as the list of its elements in document order
  (\<open>None\<close> when the parser raises), \<open>r.json()\<close> (\<open>None\<close> when it raises) and the
  chunks of \<open>r.iter_content\<close>.
\<close>

record response =
  r_status :: nat
  r_ctype :: "string option"
  r_url :: string
  r_raw :: string
  r_text :: string
  r_soup :: "tag list option"
  r_json :: "unpaywall option"
  r_chunks :: "piece list"

datatype reply = Failed string | Reply response

record net =
  pending :: "reply list"
  calls :: "request list"

definition http :: "request \<Rightarrow> net \<Rightarrow> reply \<times> net" where
  "http q n =
     (case pending n of
        [] \<Rightarrow> (Failed ''connection failed'', n\<lparr>calls := calls n @ [q]\<rparr>)
      | r # rs \<Rightarrow> (r, \<lparr>pending = rs, calls = calls n @ [q]\<rparr>))"

text \<open>\<open>raise_for_status\<close> raises \<open>HTTPError\<close> on a 4xx or 5xx status.\<close>

definition http_error :: "response \<Rightarrow> bool" where
  "http_error r \<longleftrightarrow> 400 \<le> r_status r \<and> r_status r < 600"

text \<open>Files on disk: a path is absent or has contents.\<close>

type_synonym files = "string \<rightharpoonup> string"

section \<open>The content validator\<close>

text \<open>
  The loop \<open>for chunk in it: if chunk: f.write(chunk)\<close> of the validator, on the rest of
  the stream and the contents written so far. It returns the message of the exception that
  interrupted it, if any, and what the file holds when it is closed.
\<close>

fun write_chunks :: "piece list \<Rightarrow> string \<Rightarrow> string option \<times> string" where
  "write_chunks [] written = (None, written)"
| "write_chunks (Chunk c # rest) written =
     write_chunks rest (if c \<noteq> [] then written @ c else written)"
| "write_chunks (Broken m # rest) written = (Some m, written)"

text \<open>
  \<open>download_stream_and_validate\<close> of \<open>download_pdfs_from_csv.py\<close>. The result is the
  pair \<open>(ok, error)\<close>, the network and the files afterwards.
\<close>

definition download_stream_and_validate ::
  "string \<Rightarrow> string \<Rightarrow> net \<Rightarrow> files \<Rightarrow> (bool \<times> string option) \<times> net \<times> files" where
  "download_stream_and_validate url out_path n fs =
     (case http (Request Download GET url) n of
        (Failed m, n') \<Rightarrow> ((False, Some m), n', fs)
      | (Reply r, n') \<Rightarrow>
          if http_error r then ((False, Some (''http_error_'' @ show_nat (r_status r))), n', fs)
          else
            (case r_chunks r of
               [] \<Rightarrow> ((False, Some ''empty_response''), n', fs)
             | Broken m # rest \<Rightarrow> ((False, Some m), n', fs)
             | Chunk first # rest \<Rightarrow>
                 let final = (if r_url r \<noteq> [] then r_url r else url) in
                 if \<not> (endswith (lower final) ''.pdf'' \<or> take 4 first = ''%PDF''
                        \<or> contains first ''%PDF'')
                 then ((False, Some ''not_pdf''), n', fs)
                 else
                   (case write_chunks rest first of
                      (None, written) \<Rightarrow> ((True, None), n', fs(out_path \<mapsto> written))
                    | (Some m, written) \<Rightarrow> ((False, Some m), n', fs(out_path \<mapsto> written)))))"

text \<open>\<open>download_file_with_validation\<close> of \<open>scraper.py\<close>: the same body, line for line.\<close>

definition download_file_with_validation ::
  "string \<Rightarrow> string \<Rightarrow> net \<Rightarrow> files \<Rightarrow> (bool \<times> string option) \<times> net \<times> files" where
  "download_file_with_validation url out_path n fs =
     (case http (Request Download GET url) n of
        (Failed m, n') \<Rightarrow> ((False, Some m), n', fs)
      | (Reply r, n') \<Rightarrow>
          if http_error r then ((False, Some (''http_error_'' @ show_nat (r_status r))), n', fs)
          else
            (case r_chunks r of
               [] \<Rightarrow> ((False, Some ''empty_response''), n', fs)
             | Broken m # rest \<Rightarrow> ((False, Some m), n', fs)
             | Chunk first # rest \<Rightarrow>
                 let final = (if r_url r \<noteq> [] then r_url r else url) in
                 if \<not> (endswith (lower final) ''.pdf'' \<or> take 4 first = ''%PDF''
                        \<or> contains first ''%PDF'')
                 then ((False, Some ''not_pdf''), n', fs)
                 else
                   (case write_chunks rest first of
                      (None, written) \<Rightarrow> ((True, None), n', fs(out_path \<mapsto> written))
                    | (Some m, written) \<Rightarrow> ((False, Some m), n', fs(out_path \<mapsto> written)))))"

section \<open>Joining URLs\<close>

text \<open>
  \<open>urllib.parse.urljoin\<close> belongs to the standard library, not to the repository. The
  model follows its algorithm: split both URLs into scheme, host, path, query and fragment,
  give back the reference unchanged when its scheme differs from the base's, otherwise
  take from the base what the reference lacks and resolve the dot segments of the merged
  path. Path parameters (after \<open>;\<close>) stay in the path, and the blanks and control
  characters that \<open>urlsplit\<close> removes are not treated.
\<close>

definition is_alpha :: "char \<Rightarrow> bool" where
  "is_alpha c \<longleftrightarrow> c \<in> set ''abcdefghijklmnopqrstuvwxyzABCDEFGHIJKLMNOPQRSTUVWXYZ''"

definition scheme_char :: "char \<Rightarrow> bool" where
  "scheme_char c \<longleftrightarrow> is_alpha c \<or> is_digit c \<or> c \<in> set ''+-.''"

definition uses_relative :: "string list" where
  "uses_relative = ['''', ''ftp'', ''http'', ''gopher'', ''nntp'', ''imap'', ''wais'', ''file'',
     ''https'', ''shttp'', ''mms'', ''prospero'', ''rtsp'', ''rtspu'', ''sftp'', ''svn'',
     ''svn+ssh'', ''ws'', ''wss'']"

fun split_on :: "char \<Rightarrow> string \<Rightarrow> string list" where
  "split_on d [] = [[]]"
| "split_on d (c # cs) =
     (if c = d then [] # split_on d cs
      else (case split_on d cs of [] \<Rightarrow> [[c]] | x # xs \<Rightarrow> (c # x) # xs))"

fun join :: "string \<Rightarrow> string list \<Rightarrow> string" where
  "join d [] = []"
| "join d [x] = x"
| "join d (x # y # ys) = x @ d @ join d (y # ys)"

definition urlsplit :: "string \<Rightarrow> string \<Rightarrow> string \<times> string \<times> string \<times> string \<times> string" where
  "urlsplit url dflt =
     (let pre = takeWhile (\<lambda>c. c \<noteq> CHR '':'') url;
          has_scheme = (length pre < length url \<and> pre \<noteq> [] \<and> is_alpha (hd pre)
                        \<and> list_all scheme_char pre);
          scheme = (if has_scheme then lower pre else dflt);
          u1 = (if has_scheme then drop (length pre + 1) url else url);
          delim = (\<lambda>c. c \<in> set ''/?#'');
          netloc = (if take 2 u1 = ''//'' then takeWhile (\<lambda>c. \<not> delim c) (drop 2 u1) else []);
          u2 = (if take 2 u1 = ''//'' then dropWhile (\<lambda>c. \<not> delim c) (drop 2 u1) else u1);
          u3 = takeWhile (\<lambda>c. c \<noteq> CHR ''#'') u2;
          fragment = drop 1 (dropWhile (\<lambda>c. c \<noteq> CHR ''#'') u2);
          path = takeWhile (\<lambda>c. c \<noteq> CHR ''?'') u3;
          query = drop 1 (dropWhile (\<lambda>c. c \<noteq> CHR ''?'') u3)
      in (scheme, netloc, path, query, fragment))"

definition urlunsplit :: "string \<times> string \<times> string \<times> string \<times> string \<Rightarrow> string" where
  "urlunsplit parts =
     (case parts of (scheme, netloc, path, query, fragment) \<Rightarrow>
        let u1 = (if netloc \<noteq> [] \<or> (scheme \<noteq> [] \<and> take 2 path \<noteq> ''//'')
                  then ''//'' @ netloc @ (if path \<noteq> [] \<and> take 1 path \<noteq> ''/'' then ''/'' @ path
                                           else path)
                  else path);
            u2 = (if scheme \<noteq> [] then scheme @ '':'' @ u1 else u1);
            u3 = (if query \<noteq> [] then u2 @ ''?'' @ query else u2)
        in if fragment \<noteq> [] then u3 @ ''#'' @ fragment else u3)"

text \<open>The loop of \<open>urljoin\<close> over the path segments; \<open>..\<close> drops the last one kept.\<close>

fun resolve_dots :: "string list \<Rightarrow> string list \<Rightarrow> string list" where
  "resolve_dots [] resolved = resolved"
| "resolve_dots (seg # segs) resolved =
     (if seg = ''..'' then resolve_dots segs (butlast resolved)
      else if seg = ''.'' then resolve_dots segs resolved
      else resolve_dots segs (resolved @ [seg]))"

definition urljoin :: "string \<Rightarrow> string \<Rightarrow> string" where
  "urljoin base url =
     (if base = [] then url
      else if url = [] then base
      else
        (case urlsplit base [] of (bscheme, bnetloc, bpath, bquery, bfragment) \<Rightarrow>
         case urlsplit url bscheme of (scheme, netloc, path, query, fragment) \<Rightarrow>
           if scheme \<noteq> bscheme \<or> scheme \<notin> set uses_relative then url
           else if netloc \<noteq> [] then urlunsplit (scheme, netloc, path, query, fragment)
           else if path = []
             then urlunsplit (scheme, bnetloc, bpath, if query = [] then bquery else query,
                              fragment)
           else
             let parts = split_on CHR ''/'' bpath;
                 base_parts = (if last parts \<noteq> [] then butlast parts else parts);
                 merged = base_parts @ split_on CHR ''/'' path;
                 segments =
                   (if take 1 path = ''/'' then split_on CHR ''/'' path
                    else if length merged < 2 then merged
                    else hd merged # filter (\<lambda>s. s \<noteq> []) (butlast (tl merged)) @ [last merged]);
                 resolved = resolve_dots segments [];
                 resolved' = (if last segments \<in> {''.'', ''..''} then resolved @ [[]]
                              else resolved);
                 joined = join ''/'' resolved'
             in urlunsplit (scheme, bnetloc, if joined = [] then ''/'' else joined, query,
                            fragment)))"

section \<open>Scraping a landing page\<close>

text \<open>
  \<open>tag.get(k)\<close>, \<open>soup.find(name, attrs={k: v})\<close> and \<open>soup.find_all(name, href=True)\<close>
  of BeautifulSoup on the parsed page.
\<close>

definition attr :: "tag \<Rightarrow> string \<Rightarrow> string option" where
  "attr t k = map_of (attrs t) k"

definition soup_find :: "tag list \<Rightarrow> string \<Rightarrow> string \<Rightarrow> string \<Rightarrow> tag option" where
  "soup_find soup name k v = List.find (\<lambda>t. tag_name t = name \<and> attr t k = Some v) soup"

definition find_all_href :: "tag list \<Rightarrow> string \<Rightarrow> tag list" where
  "find_all_href soup name = filter (\<lambda>t. tag_name t = name \<and> attr t ''href'' \<noteq> None) soup"

text \<open>
  The search \<open>re.search(r"(https?:\/\/[^\s'\"<>]+\.pdf)", html, flags=re.IGNORECASE)\<close>.
  At a position the pattern wants \<open>http://\<close> or \<open>https://\<close>, then the longest run of
  characters that are neither blank nor a quote nor an angle bracket, given back one
  character at a time until what is left ends in \<open>.pdf\<close> after at least one character. The
  search takes the first position with a match.
\<close>

definition url_char :: "char \<Rightarrow> bool" where
  "url_char c \<longleftrightarrow> \<not> is_space c \<and> c \<notin> set [CHR 0x27, CHR 0x22, CHR ''<'', CHR ''>'']"

fun backtrack :: "string \<Rightarrow> string option" where
  "backtrack run =
     (if length run < 5 then None
      else if endswith (lower run) ''.pdf'' then Some run
      else backtrack (butlast run))"

declare backtrack.simps [simp del]

definition match_here :: "string \<Rightarrow> string option" where
  "match_here s =
     (let k = (if startswith (lower s) ''https://'' then 8
               else if startswith (lower s) ''http://'' then 7 else 0)
      in if k = 0 then None
         else (case backtrack (takeWhile url_char (drop k s)) of
                 None \<Rightarrow> None
               | Some run \<Rightarrow> Some (take k s @ run)))"

fun re_search_pdf :: "string \<Rightarrow> string option" where
  "re_search_pdf [] = None"
| "re_search_pdf (c # cs) =
     (case match_here (c # cs) of Some m \<Rightarrow> Some m | None \<Rightarrow> re_search_pdf cs)"

text \<open>The three loops of \<open>extract_pdf_from_html\<close>: over the meta names, the links, the anchors.\<close>

fun meta_loop :: "string \<Rightarrow> tag list \<Rightarrow> string list \<Rightarrow> string option" where
  "meta_loop url soup [] = None"
| "meta_loop url soup (name # names) =
     (case (case soup_find soup ''meta'' ''name'' name of
              Some t \<Rightarrow> Some t
            | None \<Rightarrow> soup_find soup ''meta'' ''property'' name) of
        None \<Rightarrow> meta_loop url soup names
      | Some t \<Rightarrow>
          if truthy (attr t ''content'') then Some (urljoin url (str_of (attr t ''content'')))
          else meta_loop url soup names)"

fun link_loop :: "string \<Rightarrow> tag list \<Rightarrow> string option" where
  "link_loop url [] = None"
| "link_loop url (link # links) =
     (if contains (lower (str_of (attr link ''type''))) ''pdf''
      then Some (urljoin url (str_of (attr link ''href'')))
      else link_loop url links)"

fun anchor_loop :: "string \<Rightarrow> tag list \<Rightarrow> string option" where
  "anchor_loop url [] = None"
| "anchor_loop url (a # as) =
     (let href = strip (str_of (attr a ''href'')) in
      if endswith (lower href) ''.pdf'' then Some (urljoin url href)
      else if contains (lower href) ''download''
              \<and> (contains (lower href) ''pdf'' \<or> contains (lower href) ''fulltext'')
        then Some (urljoin url href)
      else anchor_loop url as)"

text \<open>
  \<open>extract_pdf_from_html(url, html)\<close>, the same in both programs. The third argument is
  the page as the parser gives it for \<open>html\<close>.
\<close>

definition extract_pdf_from_html :: "string \<Rightarrow> string \<Rightarrow> tag list option \<Rightarrow> string option" where
  "extract_pdf_from_html url html parsed =
     (case parsed of
        None \<Rightarrow> None
      | Some soup \<Rightarrow>
          (case meta_loop url soup [''citation_pdf_url'', ''pdf_url''] of
             Some u \<Rightarrow> Some u
           | None \<Rightarrow>
               (case link_loop url (find_all_href soup ''link'') of
                  Some u \<Rightarrow> Some u
                | None \<Rightarrow>
                    (case anchor_loop url (find_all_href soup ''a'') of
                       Some u \<Rightarrow> Some u
                     | None \<Rightarrow> re_search_pdf html))))"

section \<open>The resolver of \<open>download_pdfs_from_csv.py\<close>\<close>

text \<open>\<open>urllib.parse.quote_plus\<close>, of the standard library, on ASCII text.\<close>

definition quote_plus :: "string \<Rightarrow> string" where
  "quote_plus s =
     concat (map (\<lambda>c. if is_alpha c \<or> is_digit c \<or> c \<in> set ''_.-~'' then [c]
                        else if c = CHR '' '' then ''+''
                        else [CHR ''%'', ''0123456789ABCDEF'' ! (of_char c div 16),
                              ''0123456789ABCDEF'' ! (of_char c mod 16)]) s)"

definition is_doi_like :: "string \<Rightarrow> bool" where
  "is_doi_like s \<longleftrightarrow>
     s \<noteq> [] \<and> (startswith (strip s) ''10.'' \<or> contains (lower (strip s)) ''doi.org'')"

text \<open>The loop of \<open>unpaywall_pdf_for_doi\<close> over \<open>oa_locations\<close>.\<close>

fun oa_loop :: "oa_location list \<Rightarrow> string option" where
  "oa_loop [] = None"
| "oa_loop (loc # locs) =
     (if truthy (url_for_pdf loc) then url_for_pdf loc
      else if truthy (loc_url loc) \<and> endswith (lower (str_of (loc_url loc))) ''.pdf''
        then loc_url loc
      else oa_loop locs)"

definition unpaywall_pdf_for_doi :: "string \<Rightarrow> string option \<Rightarrow> net \<Rightarrow> string option \<times> net" where
  "unpaywall_pdf_for_doi doi email n =
     (if doi = [] \<or> \<not> truthy email then (None, n)
      else
        (case http (Request Api_lookup GET (''https://api.unpaywall.org/v2/'' @ quote_plus doi)) n of
           (Failed m, n') \<Rightarrow> (None, n')
         | (Reply r, n') \<Rightarrow>
             if r_status r = 200 then
               (case r_json r of
                  None \<Rightarrow> (None, n')
                | Some j \<Rightarrow>
                    let pdf = (case best_oa_location j of
                                 None \<Rightarrow> None
                               | Some bol \<Rightarrow> por (url_for_pdf bol) (loc_url bol))
                    in if truthy pdf then (pdf, n')
                       else (oa_loop (case oa_locations j of None \<Rightarrow> [] | Some locs \<Rightarrow> locs), n'))
             else (None, n')))"

definition try_doi_content_negotiation :: "string \<Rightarrow> net \<Rightarrow> string option \<times> net" where
  "try_doi_content_negotiation doi n =
     (if doi = [] then (None, n)
      else
        let doi_url = (if startswith doi ''http'' then doi else ''https://doi.org/'' @ doi) in
        (case http (Request Content_negotiation GET doi_url) n of
           (Failed m, n') \<Rightarrow> (None, n')
         | (Reply r, n') \<Rightarrow>
             let ctype = lower (str_of (r_ctype r));
                 final = (if r_url r \<noteq> [] then r_url r else doi_url)
             in if contains ctype ''pdf'' \<or> endswith (lower final) ''.pdf'' then (Some final, n')
                else if r_raw r = ''%PDF'' then (Some final, n')
                else (None, n')))"

text \<open>
  \<open>head_is_pdf\<close>. It serves the probe of the candidates and the check of a scraped link;
  the first argument is the tag under which the request is recorded.
\<close>

definition head_is_pdf :: "stage \<Rightarrow> string \<Rightarrow> net \<Rightarrow> string option \<times> net" where
  "head_is_pdf st url n =
     (case http (Request st HEAD url) n of
        (Failed m, n') \<Rightarrow> (None, n')
      | (Reply h, n') \<Rightarrow>
          if contains (lower (str_of (r_ctype h))) ''pdf'' then (Some (r_url h), n')
          else (None, n'))"

text \<open>A row of the CSV, and the dictionary \<open>norm\<close> that \<open>process_csv\<close> builds from it.\<close>

type_synonym row = "string \<rightharpoonup> string"

text \<open>The two loops of \<open>resolve_pdf_url\<close> over the candidates: HEAD first, then GET.\<close>

fun head_loop :: "string list \<Rightarrow> net \<Rightarrow> string option \<times> net" where
  "head_loop [] n = (None, n)"
| "head_loop (c # cs) n =
     (case head_is_pdf Candidate_probe c n of
        (hpdf, n') \<Rightarrow> if truthy hpdf then (hpdf, n') else head_loop cs n')"

fun landing_loop :: "string list \<Rightarrow> net \<Rightarrow> (string option \<times> string) option \<times> net" where
  "landing_loop [] n = (None, n)"
| "landing_loop (c # cs) n =
     (case http (Request Landing_scrape GET c) n of
        (Failed m, n') \<Rightarrow> landing_loop cs n'
      | (Reply r, n') \<Rightarrow>
          let ctype = lower (str_of (r_ctype r)); final_url = r_url r in
          if contains ctype ''pdf'' \<or> endswith (lower final_url) ''.pdf''
          then (Some (Some final_url, ''landing_direct_pdf''), n')
          else
            let pdf_from_html = extract_pdf_from_html final_url (r_text r) (r_soup r) in
            if truthy pdf_from_html then
              (case head_is_pdf Landing_scrape (str_of pdf_from_html) n' of
                 (verified, n'') \<Rightarrow> (Some (por verified pdf_from_html, ''landing_parsed''), n''))
            else landing_loop cs n')"

text \<open>
  \<open>resolve_pdf_url(row, email, headers)\<close>: the pair of the URL, or \<open>None\<close>, and the name
  of the method, with the network afterwards. The function is long, and is written here in
  three pieces that follow its numbered comments: steps 5 to 7 (the candidates), steps 3
  and 4 (Unpaywall and \<open>doi.org\<close>), and steps 1 and 2 (the CSV link and arXiv), each
  piece ending in the next.
\<close>

definition resolve_candidates :: "row \<Rightarrow> net \<Rightarrow> (string option \<times> string) \<times> net" where
  "resolve_candidates row n =
     (let candidates =
            map (\<lambda>k. str_of (row k))
              (filter (\<lambda>k. truthy (row k))
                 [''openalex_pdf'', ''best_pdf'', ''landing_page'', ''landing_url'', ''url''])
      in
      (case head_loop candidates n of
         (hpdf, n3) \<Rightarrow>
           if truthy hpdf then ((hpdf, ''head_pdf_candidate''), n3)
           else
             (case landing_loop candidates n3 of
                (Some found, n4) \<Rightarrow> (found, n4)
              | (None, n4) \<Rightarrow> ((None, ''no_pdf_found''), n4))))"

definition resolve_by_doi :: "row \<Rightarrow> string option \<Rightarrow> net \<Rightarrow> (string option \<times> string) \<times> net" where
  "resolve_by_doi row email n =
     (let doi = str_of (por (row ''doi'') (Some [])) in
      (case (if doi \<noteq> [] \<and> truthy email then unpaywall_pdf_for_doi doi email n
             else (None, n)) of
         (up, n1) \<Rightarrow>
           if truthy up then ((up, ''unpaywall''), n1)
           else
             (case (if doi \<noteq> [] \<and> is_doi_like doi then try_doi_content_negotiation doi n1
                    else (None, n1)) of
                (dn, n2) \<Rightarrow>
                  if truthy dn then ((dn, ''doi_negotiation''), n2)
                  else resolve_candidates row n2)))"

definition resolve_pdf_url :: "row \<Rightarrow> string option \<Rightarrow> net \<Rightarrow> (string option \<times> string) \<times> net" where
  "resolve_pdf_url row email n =
     (let pdf = por (por (row ''pdf_url'') (row ''pdf'')) None in
      if truthy pdf then ((pdf, ''csv_pdf_url''), n)
      else
        let source = lower (str_of (row ''source''));
            ident = str_of (por (por (row ''id'') (row ''article_id'')) (Some []))
        in
        if source = ''arxiv'' \<and> ident \<noteq> [] \<and> contains ident ''arxiv.org/abs/'' then
          (let pdf_link = replace ident ''/abs/'' ''/pdf/'' in
           ((Some (if \<not> endswith pdf_link ''.pdf'' then pdf_link @ ''.pdf'' else pdf_link),
             ''arxiv_construct''), n))
        else if source = ''arxiv'' \<and> ident \<noteq> [] \<and> startswith ident ''arXiv:'' then
          (let aid = drop 1 (dropWhile (\<lambda>c. c \<noteq> CHR '':'') ident) in
           ((Some (''https://arxiv.org/pdf/'' @ aid @ ''.pdf''), ''arxiv_construct''), n))
        else resolve_by_doi row email n)"

section \<open>One row of \<open>process_csv\<close>\<close>

definition norm_of :: "row \<Rightarrow> row" where
  "norm_of row = map_of
     [(''pdf_url'', str_of (por (por (row ''pdf_url'') (row ''pdf'')) (Some []))),
      (''doi'', str_of (por (row ''doi'') (Some []))),
      (''source'', str_of (por (row ''source'') (Some []))),
      (''id'', str_of (por (row ''id'') (Some []))),
      (''title'', str_of (por (por (row ''title'') (row ''display_name'')) (Some []))),
      (''openalex_pdf'', str_of (por (por (row ''openalex_pdf'') (row ''best_pdf'')) (Some []))),
      (''best_pdf'', str_of (por (row ''best_pdf'') (Some []))),
      (''landing_url'', str_of (por (row ''landing_url'') (Some [])))]"

record outcome =
  pdf_url_used :: string
  saved_path :: string
  download_error :: string

text \<open>
  The body of the loop of \<open>process_csv\<close> for one row. The resolver raises nothing, so the
  first of the \<open>RETRIES + 1\<close> attempts returns. The path of the destination, which the
  program composes from the sector, the DOI and the title, is the argument \<open>out_file\<close>;
  the directories it creates on the way are left out.
\<close>

definition process_row ::
  "row \<Rightarrow> string option \<Rightarrow> string \<Rightarrow> net \<Rightarrow> files \<Rightarrow> outcome \<times> net \<times> files" where
  "process_row row email out_file n fs =
     (case resolve_pdf_url (norm_of row) email n of
        ((resolved, method), n1) \<Rightarrow>
          if truthy resolved then
            (case download_stream_and_validate (str_of resolved) out_file n1 fs of
               ((ok, err), n2, fs2) \<Rightarrow>
                 if ok then
                   (\<lparr>pdf_url_used = str_of resolved, saved_path = out_file, download_error = []\<rparr>,
                    n2, fs2)
                 else
                   let error = method @ ''|'' @ (case err of None \<Rightarrow> ''None'' | Some e \<Rightarrow> e) in
                   if contains method ''doi_negotiation'' \<or> contains method ''unpaywall''
                      \<or> contains method ''landing'' \<or> contains method ''csv_pdf_url''
                   then
                     (case http (Request Repair GET (str_of resolved)) n2 of
                        (Failed m, n3) \<Rightarrow>
                          (\<lparr>pdf_url_used = str_of resolved, saved_path = [],
                            download_error = error\<rparr>, n3, fs2)
                      | (Reply r, n3) \<Rightarrow>
                          let cand = extract_pdf_from_html (r_url r) (r_text r) (r_soup r) in
                          if truthy cand then
                            (case download_stream_and_validate (str_of cand) out_file n3 fs2 of
                               ((ok2, err2), n4, fs4) \<Rightarrow>
                                 if ok2 then
                                   (\<lparr>pdf_url_used = str_of cand, saved_path = out_file,
                                     download_error = []\<rparr>, n4, fs4)
                                 else
                                   (\<lparr>pdf_url_used = str_of cand, saved_path = [],
                                     download_error = error\<rparr>, n4, fs4))
                          else
                            (\<lparr>pdf_url_used = str_of resolved, saved_path = [],
                              download_error = error\<rparr>, n3, fs2))
                   else
                     (\<lparr>pdf_url_used = str_of resolved, saved_path = [], download_error = error\<rparr>,
                      n2, fs2))
          else
            (\<lparr>pdf_url_used = [], saved_path = [],
              download_error = (if method \<noteq> [] then method else ''no_pdf_found'')\<rparr>, n1, fs))"

section \<open>The resolver of \<open>scraper.py\<close>\<close>

text \<open>\<open>is_doi_url\<close>: \<open>doi.org/\<close> occurs, or the text matches \<open>^10\.\d+\/\<close>.\<close>

definition is_doi_url :: "string option \<Rightarrow> bool" where
  "is_doi_url u \<longleftrightarrow>
     truthy u \<and>
     (let s = lower (str_of u); digits = takeWhile is_digit (drop 3 s) in
      contains s ''doi.org/''
      \<or> (startswith s ''10.'' \<and> digits \<noteq> [] \<and> take 1 (drop (3 + length digits) s) = ''/''))"

text \<open>
  \<open>unpaywall_pdf_for_doi\<close> of \<open>scraper.py\<close>: the DOI goes into the address unquoted, the
  rest is as in the other program.
\<close>

definition unpaywall_pdf_for_doi_scraper ::
  "string option \<Rightarrow> string option \<Rightarrow> net \<Rightarrow> string option \<times> net" where
  "unpaywall_pdf_for_doi_scraper doi email n =
     (if \<not> truthy doi \<or> \<not> truthy email then (None, n)
      else
        (case http (Request Api_lookup GET (''https://api.unpaywall.org/v2/'' @ str_of doi)) n of
           (Failed m, n') \<Rightarrow> (None, n')
         | (Reply r, n') \<Rightarrow>
             if r_status r = 200 then
               (case r_json r of
                  None \<Rightarrow> (None, n')
                | Some j \<Rightarrow>
                    let pdf = (case best_oa_location j of
                                 None \<Rightarrow> None
                               | Some bol \<Rightarrow> por (url_for_pdf bol) (loc_url bol))
                    in if truthy pdf then (pdf, n')
                       else (oa_loop (case oa_locations j of None \<Rightarrow> [] | Some locs \<Rightarrow> locs), n'))
             else (None, n')))"

text \<open>
  The steps of \<open>try_resolve_pdf_url\<close> that follow the Unpaywall lookup: the request to
  \<open>doi.org\<close> for a candidate that looks like a DOI, and the GET of the landing page with
  the check of a scraped link.
\<close>

definition negotiate :: "string \<Rightarrow> net \<Rightarrow> string option \<times> net" where
  "negotiate candidate_url n =
     (let doi_url = (if startswith candidate_url ''10.'' then ''https://doi.org/'' @ candidate_url
                     else if startswith candidate_url ''http'' then candidate_url
                     else ''https://'' @ candidate_url)
      in
      (case http (Request Content_negotiation GET doi_url) n of
         (Failed m, n') \<Rightarrow> (None, n')
       | (Reply r, n') \<Rightarrow>
           let ctype = lower (str_of (r_ctype r));
               final = (if r_url r \<noteq> [] then r_url r else doi_url)
           in if contains ctype ''pdf'' \<or> endswith (lower final) ''.pdf'' then (Some final, n')
              else if r_raw r = ''%PDF'' then (Some final, n')
              else (None, n')))"

definition scrape_landing :: "string \<Rightarrow> net \<Rightarrow> string option \<times> net" where
  "scrape_landing candidate_url n =
     (case http (Request Landing_scrape GET candidate_url) n of
        (Failed m, n1) \<Rightarrow> (None, n1)
      | (Reply r, n1) \<Rightarrow>
          if http_error r then (None, n1)
          else
            let ctype = lower (str_of (r_ctype r)); final_url = r_url r in
            if contains ctype ''pdf'' \<or> endswith (lower final_url) ''.pdf''
            then (Some final_url, n1)
            else
              let pdf_candidate = extract_pdf_from_html final_url (r_text r) (r_soup r) in
              if truthy pdf_candidate then
                (case http (Request Landing_scrape HEAD (str_of pdf_candidate)) n1 of
                   (Failed m, n2) \<Rightarrow> (pdf_candidate, n2)
                 | (Reply h2, n2) \<Rightarrow>
                     if contains (lower (str_of (r_ctype h2))) ''pdf''
                        \<or> endswith (lower (r_url h2)) ''.pdf''
                     then (Some (r_url h2), n2)
                     else (None, n2))
              else (None, n1))"

text \<open>
  \<open>try_resolve_pdf_url(candidate_url, doi, email, headers)\<close>: the URL of the PDF, or \<open>None\<close>.
\<close>

definition try_resolve_pdf_url ::
  "string option \<Rightarrow> string option \<Rightarrow> string option \<Rightarrow> net \<Rightarrow> string option \<times> net" where
  "try_resolve_pdf_url candidate_url doi email n =
     (case (if truthy doi \<and> truthy email then unpaywall_pdf_for_doi_scraper doi email n
            else (None, n)) of
        (pdf, n1) \<Rightarrow>
          if truthy pdf then (pdf, n1)
          else
            (case (if is_doi_url candidate_url then negotiate (str_of candidate_url) n1
                   else (None, n1)) of
               (Some final, n2) \<Rightarrow> (Some final, n2)
             | (None, n2) \<Rightarrow>
                 if \<not> truthy candidate_url then (None, n2)
                 else
                   (case http (Request Candidate_probe HEAD (str_of candidate_url)) n2 of
                      (Failed m, n3) \<Rightarrow> scrape_landing (str_of candidate_url) n3
                    | (Reply h, n3) \<Rightarrow>
                        if contains (lower (str_of (r_ctype h))) ''pdf'' then (Some (r_url h), n3)
                        else scrape_landing (str_of candidate_url) n3)))"

section \<open>One work of \<open>download_for_topic\<close>\<close>

text \<open>What the loop reads of a work of OpenAlex: the DOI and the locations.\<close>

record location =
  l_url :: "string option"
  l_pdf_url :: "string option"
  l_landing_page_url :: "string option"

record work =
  w_doi :: "string option"
  w_best_oa_location :: "location option"
  w_primary_location :: "location option"
  w_locations :: "location list option"

definition location_url :: "location option \<Rightarrow> string option" where
  "location_url l =
     (case l of
        None \<Rightarrow> None
      | Some loc \<Rightarrow> por (por (l_url loc) (l_pdf_url loc)) (l_landing_page_url loc))"

definition candidate_of :: "work \<Rightarrow> string option" where
  "candidate_of w =
     (let c1 = location_url (w_best_oa_location w);
          c2 = (if \<not> truthy c1 then location_url (w_primary_location w) else c1)
      in if \<not> truthy c2 then
           (case w_locations w of
              None \<Rightarrow> c2
            | Some [] \<Rightarrow> c2
            | Some (l # ls) \<Rightarrow> location_url (Some l))
         else c2)"

text \<open>
  The body of the loop of \<open>download_for_topic\<close> for one work, up to the row it writes: the
  resolved URL, the saved file and the error. The path of the file, composed from the DOI
  or the title, is the argument \<open>filepath\<close>; the progress messages are left out.
\<close>

definition process_work ::
  "work \<Rightarrow> string option \<Rightarrow> string \<Rightarrow> net \<Rightarrow> files \<Rightarrow> outcome \<times> net \<times> files" where
  "process_work w email filepath n fs =
     (let doi = w_doi w; candidate = candidate_of w in
      case (if truthy candidate \<or> truthy doi then try_resolve_pdf_url candidate doi email n
            else (None, n)) of
        (pdf_url, n1) \<Rightarrow>
          if truthy pdf_url then
            (case download_file_with_validation (str_of pdf_url) filepath n1 fs of
               ((ok, err), n2, fs2) \<Rightarrow>
                 if ok then
                   (\<lparr>pdf_url_used = str_of pdf_url, saved_path = filepath, download_error = []\<rparr>,
                    n2, fs2)
                 else
                   (\<lparr>pdf_url_used = str_of pdf_url, saved_path = [],
                     download_error = (if truthy err then str_of err else ''download_failed'')\<rparr>,
                    n2, fs2))
          else
            (\<lparr>pdf_url_used = str_of pdf_url, saved_path = [],
              download_error = ''no_pdf_url_found''\<rparr>, n1, fs))"

section \<open>The merge of \<open>vision2030_multi_source_harvest.py\<close>\<close>

text \<open>
  \<open>normalize_title\<close>: lower case, \<open>re.sub(r"[^\w\s]", " ", t)\<close>, then
  \<open>re.sub(r"\s+", " ", t).strip()\<close>.
\<close>

function collapse :: "string \<Rightarrow> string" where
  "collapse [] = []"
| "collapse (c # cs) =
     (if is_space c then CHR '' '' # collapse (dropWhile is_space cs) else c # collapse cs)"
  by pat_completeness auto
termination
  by (relation "measure length") (auto simp: less_Suc_eq_le length_dropWhile_le)

definition normalize_title :: "string \<Rightarrow> string" where
  "normalize_title title =
     (if title = [] then []
      else
        let t = lower title;
            t1 = map (\<lambda>c. if \<not> is_word c \<and> \<not> is_space c then CHR '' '' else c) t
        in strip (collapse t1))"

text \<open>
  An item as the three fetchers return it is a dictionary of strings. A merged record is
  the copy of the first item seen under a key, with the set of sectors, the set of
  sources and the sector of the first query. The list \<open>rows\<close> and the dictionary \<open>seen\<close>
  of \<open>harvest_all\<close> share these records: \<open>seen\<close> maps a key to the position of its record
  in \<open>rows\<close>.
\<close>

type_synonym item = "string \<rightharpoonup> string"

record merged =
  content :: item
  assigned_sectors :: "string set"
  sources :: "string set"
  query_sector :: string

record harvest =
  rows :: "merged list"
  seen :: "string \<rightharpoonup> nat"

text \<open>The key that each of the three loops of \<open>harvest_all\<close> computes for an item.\<close>

definition key_of :: "item \<Rightarrow> string" where
  "key_of item =
     (let key = strip (lower (str_of (por (item ''doi'') (Some [])))) in
      if key = [] then normalize_title (str_of (por (item ''title'') (Some []))) else key)"

text \<open>
  The body of those loops, for an item found under the query of \<open>sector\<close> in the source
  \<open>src\<close> (\<open>openalex\<close>, \<open>arxiv\<close> or \<open>core\<close>).
\<close>

definition ingest :: "string \<Rightarrow> string \<Rightarrow> item \<Rightarrow> harvest \<Rightarrow> harvest" where
  "ingest sector src item h =
     (let key = key_of item in
      if key = [] then h
      else
        (case seen h key of
           Some i \<Rightarrow>
             h\<lparr>rows := (rows h)[i := (rows h ! i)
                 \<lparr>assigned_sectors := insert sector (assigned_sectors (rows h ! i)),
                  sources := insert src (sources (rows h ! i))\<rparr>]\<rparr>
         | None \<Rightarrow>
             \<lparr>rows = rows h @ [\<lparr>content = item, assigned_sectors = {sector}, sources = {src},
                                query_sector = sector\<rparr>],
              seen = (seen h)(key \<mapsto> length (rows h))\<rparr>))"

text \<open>A loop over the items of one source, and the three loops for one sector.\<close>

fun ingest_all :: "string \<Rightarrow> string \<Rightarrow> item list \<Rightarrow> harvest \<Rightarrow> harvest" where
  "ingest_all sector src [] h = h"
| "ingest_all sector src (item # items) h = ingest_all sector src items (ingest sector src item h)"

definition harvest_sector ::
  "string \<Rightarrow> item list \<Rightarrow> item list \<Rightarrow> item list \<Rightarrow> harvest \<Rightarrow> harvest" where
  "harvest_sector sector open_items arxiv_items core_items h =
     ingest_all sector ''core'' core_items
       (ingest_all sector ''arxiv'' arxiv_items
          (ingest_all sector ''openalex'' open_items h))"

definition no_harvest :: harvest where
  "no_harvest = \<lparr>rows = [], seen = Map.empty\<rparr>"

section \<open>The chain of strategies, as the specification words it\<close>

text \<open>
  A strategy runs against the network and yields a result or nothing. A chain runs its
  strategies in the order of the list and stops at the first one that yields a result.
\<close>

fun first_success :: "(net \<Rightarrow> 'a option \<times> net) list \<Rightarrow> net \<Rightarrow> 'a option \<times> net" where
  "first_success [] n = (None, n)"
| "first_success (s # ss) n =
     (case s n of (Some found, n') \<Rightarrow> (Some found, n') | (None, n') \<Rightarrow> first_success ss n')"

text \<open>The six strategies on a row, each with the name of the method it reports.\<close>

definition candidates_of :: "row \<Rightarrow> string list" where
  "candidates_of row =
     map (\<lambda>k. str_of (row k))
       (filter (\<lambda>k. truthy (row k))
          [''openalex_pdf'', ''best_pdf'', ''landing_page'', ''landing_url'', ''url''])"

definition csv_direct :: "row \<Rightarrow> net \<Rightarrow> (string option \<times> string) option \<times> net" where
  "csv_direct row n =
     (if truthy (row ''pdf_url'') then (Some (row ''pdf_url'', ''csv_pdf_url''), n)
      else if truthy (row ''pdf'') then (Some (row ''pdf'', ''csv_pdf_url''), n)
      else (None, n))"

definition source_construct :: "row \<Rightarrow> net \<Rightarrow> (string option \<times> string) option \<times> net" where
  "source_construct row n =
     (let ident = (if truthy (row ''id'') then str_of (row ''id'') else str_of (row ''article_id''))
      in if lower (str_of (row ''source'')) \<noteq> ''arxiv'' then (None, n)
         else if contains ident ''arxiv.org/abs/'' then
           (Some (Some (if endswith (replace ident ''/abs/'' ''/pdf/'') ''.pdf''
                        then replace ident ''/abs/'' ''/pdf/''
                        else replace ident ''/abs/'' ''/pdf/'' @ ''.pdf''), ''arxiv_construct''), n)
         else if startswith ident ''arXiv:'' then
           (Some (Some (''https://arxiv.org/pdf/'' @ drop 6 ident @ ''.pdf''), ''arxiv_construct''),
            n)
         else (None, n))"

definition api_lookup ::
  "row \<Rightarrow> string option \<Rightarrow> net \<Rightarrow> (string option \<times> string) option \<times> net" where
  "api_lookup row email n =
     (if truthy (row ''doi'') \<and> truthy email then
        (case unpaywall_pdf_for_doi (str_of (row ''doi'')) email n of
           (up, n') \<Rightarrow> (if truthy up then Some (up, ''unpaywall'') else None, n'))
      else (None, n))"

definition content_negotiation :: "row \<Rightarrow> net \<Rightarrow> (string option \<times> string) option \<times> net" where
  "content_negotiation row n =
     (if truthy (row ''doi'') \<and> is_doi_like (str_of (row ''doi'')) then
        (case try_doi_content_negotiation (str_of (row ''doi'')) n of
           (dn, n') \<Rightarrow> (if truthy dn then Some (dn, ''doi_negotiation'') else None, n'))
      else (None, n))"

definition candidate_probe :: "row \<Rightarrow> net \<Rightarrow> (string option \<times> string) option \<times> net" where
  "candidate_probe row n =
     (case head_loop (candidates_of row) n of
        (hpdf, n') \<Rightarrow> (if truthy hpdf then Some (hpdf, ''head_pdf_candidate'') else None, n'))"

definition landing_scrape :: "row \<Rightarrow> net \<Rightarrow> (string option \<times> string) option \<times> net" where
  "landing_scrape row n = landing_loop (candidates_of row) n"

text \<open>The four strategies of \<open>scraper.py\<close> on a candidate, a DOI and an email.\<close>

definition api_lookup_scraper ::
  "string option \<Rightarrow> string option \<Rightarrow> net \<Rightarrow> string option \<times> net" where
  "api_lookup_scraper doi email n =
     (if truthy doi \<and> truthy email then
        (case unpaywall_pdf_for_doi_scraper doi email n of
           (pdf, n') \<Rightarrow> (if truthy pdf then pdf else None, n'))
      else (None, n))"

definition content_negotiation_scraper :: "string option \<Rightarrow> net \<Rightarrow> string option \<times> net" where
  "content_negotiation_scraper candidate_url n =
     (if is_doi_url candidate_url then negotiate (str_of candidate_url) n else (None, n))"

definition candidate_probe_scraper :: "string option \<Rightarrow> net \<Rightarrow> string option \<times> net" where
  "candidate_probe_scraper candidate_url n =
     (if truthy candidate_url then
        (case http (Request Candidate_probe HEAD (str_of candidate_url)) n of
           (Failed m, n') \<Rightarrow> (None, n')
         | (Reply h, n') \<Rightarrow>
             (if contains (lower (str_of (r_ctype h))) ''pdf'' then Some (r_url h) else None, n'))
      else (None, n))"

definition landing_scrape_scraper :: "string option \<Rightarrow> net \<Rightarrow> string option \<times> net" where
  "landing_scrape_scraper candidate_url n =
     (if truthy candidate_url then scrape_landing (str_of candidate_url) n else (None, n))"

text \<open>The place of a stage in the fixed order; the first two strategies make no request.\<close>

fun rank :: "stage \<Rightarrow> nat" where
  "rank Api_lookup = 3"
| "rank Content_negotiation = 4"
| "rank Candidate_probe = 5"
| "rank Landing_scrape = 6"
| "rank Download = 7"
| "rank Repair = 8"

section \<open>The scrape, as the specification words it\<close>

fun first_some :: "'a option list \<Rightarrow> 'a option" where
  "first_some [] = None"
| "first_some (None # xs) = first_some xs"
| "first_some (Some x # xs) = Some x"

text \<open>
  The meta tag for a name is the first one so named or, when none is, the first one so
  propertied. The scrape takes the content of the first of the two names whose tag has one.
\<close>

definition meta_tag :: "tag list \<Rightarrow> string \<Rightarrow> tag option" where
  "meta_tag soup name =
     first_some [List.find (\<lambda>t. tag_name t = ''meta'' \<and> attr t ''name'' = Some name) soup,
                 List.find (\<lambda>t. tag_name t = ''meta'' \<and> attr t ''property'' = Some name) soup]"

definition scrape_meta :: "string \<Rightarrow> tag list \<Rightarrow> string option" where
  "scrape_meta url soup =
     map_option (\<lambda>t. urljoin url (str_of (attr t ''content'')))
       (List.find (\<lambda>t. truthy (attr t ''content''))
          (List.map_filter (meta_tag soup) [''citation_pdf_url'', ''pdf_url'']))"

text \<open>The first link element with an \<open>href\<close> whose type contains \<open>pdf\<close>.\<close>

definition scrape_link :: "string \<Rightarrow> tag list \<Rightarrow> string option" where
  "scrape_link url soup =
     map_option (\<lambda>t. urljoin url (str_of (attr t ''href'')))
       (List.find (\<lambda>t. tag_name t = ''link'' \<and> attr t ''href'' \<noteq> None
                       \<and> contains (lower (str_of (attr t ''type''))) ''pdf'') soup)"

text \<open>
  The first anchor whose \<open>href\<close>, trimmed and lower-cased, ends in \<open>.pdf\<close> or contains
  \<open>download\<close> together with \<open>pdf\<close> or \<open>fulltext\<close>.
\<close>

definition scrape_anchor :: "string \<Rightarrow> tag list \<Rightarrow> string option" where
  "scrape_anchor url soup =
     map_option (\<lambda>t. urljoin url (strip (str_of (attr t ''href''))))
       (List.find (\<lambda>t. tag_name t = ''a'' \<and> attr t ''href'' \<noteq> None
                       \<and> (endswith (lower (strip (str_of (attr t ''href'')))) ''.pdf''
                           \<or> (contains (lower (strip (str_of (attr t ''href'')))) ''download''
                               \<and> (contains (lower (strip (str_of (attr t ''href'')))) ''pdf''
                                   \<or> contains (lower (strip (str_of (attr t ''href''))))
                                        ''fulltext'')))) soup)"

text \<open>
  A computation emits at rank \<open>k\<close> when all the requests it adds to the list of calls
  carry a stage of that rank.
\<close>

definition emits :: "nat \<Rightarrow> (net \<Rightarrow> 'a \<times> net) \<Rightarrow> bool" where
  "emits k s \<longleftrightarrow>
     (\<forall>n. \<exists>xs. calls (snd (s n)) = calls n @ xs \<and> (\<forall>q \<in> set xs. rank (stage_of q) = k))"

section \<open>Sample responses\<close>

text \<open>A response with status 200 and nothing else; the samples below fill it in.\<close>

definition blank :: response where
  "blank = \<lparr>r_status = 200, r_ctype = None, r_url = [], r_raw = [], r_text = [],
            r_soup = Some [], r_json = None, r_chunks = []\<rparr>"

text \<open>An HTML error page served with status 200, a PDF in two chunks, an empty body.\<close>

definition html_page :: response where
  "html_page = blank\<lparr>r_ctype := Some ''text/html'', r_url := ''https://pub.example/article/1'',
                     r_raw := ''<htm'', r_text := ''<html>Not here</html>'',
                     r_chunks := [Chunk ''<html>Not here</html>'']\<rparr>"

definition pdf_file :: response where
  "pdf_file = blank\<lparr>r_ctype := Some ''application/pdf'', r_url := ''https://x/y.pdf'',
                    r_raw := ''%PDF'', r_chunks := [Chunk ''%PDF-1.7 '', Chunk ''body'']\<rparr>"

definition empty_body :: response where
  "empty_body = blank\<lparr>r_url := ''https://x/empty''\<rparr>"

definition script :: "reply list \<Rightarrow> net" where
  "script rs = \<lparr>pending = rs, calls = []\<rparr>"

text \<open>
  A login page served at a URL with an upper-case suffix, and a PDF whose connection drops
  after the second chunk.
\<close>

definition upper_suffix :: response where
  "upper_suffix = blank\<lparr>r_ctype := Some ''text/html'', r_url := ''https://x/REPORT.PDF'',
                        r_chunks := [Chunk ''<html>Sign in</html>'']\<rparr>"

definition cut_pdf :: response where
  "cut_pdf = blank\<lparr>r_ctype := Some ''application/pdf'', r_url := ''https://x/y.pdf'',
                   r_raw := ''%PDF'',
                   r_chunks := [Chunk ''%PDF-1.7 '', Chunk ''body'', Broken ''Connection broken'',
                                Chunk ''tail'']\<rparr>"

section \<open>Sample records\<close>

text \<open>Scenario A: an arXiv record without a direct link.\<close>

definition arxiv_row :: row where
  "arxiv_row = map_of [(''source'', ''arxiv''), (''id'', ''http://arxiv.org/abs/1234.5678'')]"

text \<open>
  Scenario C: a landing page with a \<open>citation_pdf_url\<close> meta tag, reached at
  \<open>https://pub.example/article/1\<close>, and a row whose only link redirects to it.
\<close>

definition meta_page :: response where
  "meta_page = blank\<lparr>r_ctype := Some ''text/html'', r_url := ''https://pub.example/article/1'',
     r_raw := ''<met'',
     r_text := ''<meta name=\"citation_pdf_url\" content=\"/f/paper.pdf\">'',
     r_soup := Some [\<lparr>tag_name = ''meta'',
                       attrs = [(''name'', ''citation_pdf_url''), (''content'', ''/f/paper.pdf'')]\<rparr>],
     r_chunks := [Chunk ''<meta name=\"citation_pdf_url\" content=\"/f/paper.pdf\">'']\<rparr>"

definition landing_row :: row where
  "landing_row = map_of [(''source'', ''openalex''), (''landing_url'', ''https://doi.example/r/1'')]"

text \<open>
  Scenario B: a record with a DOI, and the answer of Unpaywall that names a PDF.
\<close>

definition doi_row :: row where
  "doi_row = map_of [(''source'', ''openalex''), (''doi'', ''10.1000/xyz'')]"

definition oa_answer :: response where
  "oa_answer = blank\<lparr>r_ctype := Some ''application/json'',
     r_url := ''https://api.unpaywall.org/v2/10.1000%2Fxyz'',
     r_json := Some \<lparr>best_oa_location =
                       Some \<lparr>url_for_pdf = Some ''https://x/y.pdf'', loc_url = None\<rparr>,
                     oa_locations = None\<rparr>\<rparr>"

text \<open>
  A landing page whose only hint is a download link, and the answer to a HEAD request for
  that link: an HTML page at the same address.
\<close>

definition anchor_page :: response where
  "anchor_page = blank\<lparr>r_ctype := Some ''text/html'', r_url := ''https://pub.example/article/1'',
     r_raw := ''<a h'',
     r_text := ''<a href=\"/download/fulltext/1\">Download</a>'',
     r_soup := Some [\<lparr>tag_name = ''a'', attrs = [(''href'', ''/download/fulltext/1'')]\<rparr>],
     r_chunks := [Chunk ''<a href=\"/download/fulltext/1\">Download</a>'']\<rparr>"

definition viewer_head :: response where
  "viewer_head = blank\<lparr>r_ctype := Some ''text/html'',
                      r_url := ''https://pub.example/download/fulltext/1''\<rparr>"

definition article_row :: row where
  "article_row = map_of [(''source'', ''openalex''),
                         (''landing_url'', ''https://pub.example/article/1'')]"

text \<open>A work of OpenAlex with the DOI of scenario B and a landing page.\<close>

definition doi_work :: work where
  "doi_work = \<lparr>w_doi = Some ''10.1000/xyz'',
                w_best_oa_location =
                  Some \<lparr>l_url = Some ''https://pub.example/article/1'', l_pdf_url = None,
                        l_landing_page_url = None\<rparr>,
                w_primary_location = None, w_locations = None\<rparr>"

section \<open>Properties of the content validator\<close>

lemma write_chunks_extends: "\<exists>later. snd (write_chunks rest written) = written @ later"
proof (induction rest written rule: write_chunks.induct)
  case (2 c rest written)
  then obtain later where
    "snd (write_chunks rest (if c \<noteq> [] then written @ c else written)) =
       (if c \<noteq> [] then written @ c else written) @ later"
    by blast
  then show ?case by (cases "c = []") auto
qed simp_all

lemma validators_agree: "download_file_with_validation = download_stream_and_validate"
  by (intro ext) (simp add: download_file_with_validation_def download_stream_and_validate_def)

lemma validate_reply:
  assumes "pending n = Reply r # rs" and "\<not> http_error r"
  shows "download_stream_and_validate url out_path n fs =
     (let n' = \<lparr>pending = rs, calls = calls n @ [Request Download GET url]\<rparr> in
      case r_chunks r of
        [] \<Rightarrow> ((False, Some ''empty_response''), n', fs)
      | Broken m # rest \<Rightarrow> ((False, Some m), n', fs)
      | Chunk first # rest \<Rightarrow>
          if \<not> (endswith (lower (if r_url r \<noteq> [] then r_url r else url)) ''.pdf''
                 \<or> take 4 first = ''%PDF'' \<or> contains first ''%PDF'')
          then ((False, Some ''not_pdf''), n', fs)
          else
            (case write_chunks rest first of
               (None, written) \<Rightarrow> ((True, None), n', fs(out_path \<mapsto> written))
             | (Some m, written) \<Rightarrow> ((False, Some m), n', fs(out_path \<mapsto> written))))"
  using assms
  by (auto simp: download_stream_and_validate_def http_def Let_def
      split: list.splits piece.splits)

lemma validate_files_changed:
  assumes "snd (snd (download_stream_and_validate url out_path n fs)) \<noteq> fs"
  shows "\<exists>r rs first rest written.
           pending n = Reply r # rs \<and> \<not> http_error r \<and> r_chunks r = Chunk first # rest
           \<and> (endswith (lower (if r_url r \<noteq> [] then r_url r else url)) ''.pdf''
                \<or> take 4 first = ''%PDF'' \<or> contains first ''%PDF'')
           \<and> snd (snd (download_stream_and_validate url out_path n fs)) = fs(out_path \<mapsto> written)"
proof (cases "pending n")
  case Nil
  with assms show ?thesis by (simp add: download_stream_and_validate_def http_def)
next
  case (Cons a rs)
  show ?thesis
  proof (cases a)
    case (Failed m)
    with Cons assms show ?thesis by (simp add: download_stream_and_validate_def http_def)
  next
    case (Reply r)
    show ?thesis
    proof (cases "http_error r")
      case True
      with Cons Reply assms show ?thesis
        by (simp add: download_stream_and_validate_def http_def)
    next
      case False
      note run = validate_reply [OF Cons [unfolded Reply] False, of url out_path fs]
      show ?thesis
      proof (cases "r_chunks r")
        case Nil
        with run assms show ?thesis by simp
      next
        case chunks: (Cons i rest)
        show ?thesis
        proof (cases i)
          case (Broken m)
          with chunks run assms show ?thesis by simp
        next
          case (Chunk first)
          with chunks run assms Cons Reply False show ?thesis
            by (auto simp: Let_def split: if_splits prod.splits option.splits)
        qed
      qed
    qed
  qed
qed

text \<open>
  C3. When the response is not an HTTP error and its stream has no chunk, the validator
  returns \<open>empty_response\<close>; when the first chunk and the final URL fail the acceptance
  test, it returns \<open>not_pdf\<close>; in both cases the files are exactly as before. Whenever the
  files differ after a call, the response was not an error, its stream had a first chunk,
  the acceptance test passed, and the only change is the destination file. The validator of
  \<open>scraper.py\<close> is the same function.
\<close>

theorem validator_writes_only_after_acceptance:
  "(\<forall>r rs. pending n = Reply r # rs \<and> \<not> http_error r \<longrightarrow>
      (r_chunks r = [] \<longrightarrow>
         download_stream_and_validate url out_path n fs =
           ((False, Some ''empty_response''),
            \<lparr>pending = rs, calls = calls n @ [Request Download GET url]\<rparr>, fs))
    \<and> (\<forall>first rest.
          r_chunks r = Chunk first # rest
          \<and> \<not> (endswith (lower (if r_url r \<noteq> [] then r_url r else url)) ''.pdf''
                 \<or> take 4 first = ''%PDF'' \<or> contains first ''%PDF'') \<longrightarrow>
          download_stream_and_validate url out_path n fs =
            ((False, Some ''not_pdf''),
             \<lparr>pending = rs, calls = calls n @ [Request Download GET url]\<rparr>, fs)))
   \<and> (snd (snd (download_stream_and_validate url out_path n fs)) \<noteq> fs \<longrightarrow>
        (\<exists>r rs first rest written.
           pending n = Reply r # rs \<and> \<not> http_error r \<and> r_chunks r = Chunk first # rest
           \<and> (endswith (lower (if r_url r \<noteq> [] then r_url r else url)) ''.pdf''
                \<or> take 4 first = ''%PDF'' \<or> contains first ''%PDF'')
           \<and> snd (snd (download_stream_and_validate url out_path n fs))
               = fs(out_path \<mapsto> written)))
   \<and> download_file_with_validation url out_path n fs
       = download_stream_and_validate url out_path n fs"
proof (intro conjI allI impI)
  fix r rs
  assume a: "pending n = Reply r # rs \<and> \<not> http_error r"
  then have run: "pending n = Reply r # rs" "\<not> http_error r" by simp_all
  show "r_chunks r = [] \<Longrightarrow>
         download_stream_and_validate url out_path n fs =
           ((False, Some ''empty_response''),
            \<lparr>pending = rs, calls = calls n @ [Request Download GET url]\<rparr>, fs)"
    using validate_reply [OF run, of url out_path fs] by simp
  fix first rest
  assume "r_chunks r = Chunk first # rest
          \<and> \<not> (endswith (lower (if r_url r \<noteq> [] then r_url r else url)) ''.pdf''
                 \<or> take 4 first = ''%PDF'' \<or> contains first ''%PDF'')"
  then show "download_stream_and_validate url out_path n fs =
            ((False, Some ''not_pdf''),
             \<lparr>pending = rs, calls = calls n @ [Request Download GET url]\<rparr>, fs)"
    using validate_reply [OF run, of url out_path fs] by (simp add: Let_def)
next
  assume "snd (snd (download_stream_and_validate url out_path n fs)) \<noteq> fs"
  then show "\<exists>r rs first rest written.
           pending n = Reply r # rs \<and> \<not> http_error r \<and> r_chunks r = Chunk first # rest
           \<and> (endswith (lower (if r_url r \<noteq> [] then r_url r else url)) ''.pdf''
                \<or> take 4 first = ''%PDF'' \<or> contains first ''%PDF'')
           \<and> snd (snd (download_stream_and_validate url out_path n fs))
               = fs(out_path \<mapsto> written)"
    by (rule validate_files_changed)
next
  show "download_file_with_validation url out_path n fs
       = download_stream_and_validate url out_path n fs"
    by (simp add: validators_agree)
qed

theorem validator_writes_only_after_acceptance_witness:
  "download_stream_and_validate ''https://x/empty'' ''out/a.pdf'' (script [Reply empty_body]) Map.empty
     = ((False, Some ''empty_response''),
        \<lparr>pending = [], calls = [Request Download GET ''https://x/empty'']\<rparr>, Map.empty)
   \<and> download_stream_and_validate ''https://pub.example/article/1'' ''out/a.pdf''
        (script [Reply html_page]) Map.empty
     = ((False, Some ''not_pdf''),
        \<lparr>pending = [], calls = [Request Download GET ''https://pub.example/article/1'']\<rparr>,
        Map.empty)
   \<and> snd (snd (download_stream_and_validate ''https://x/y.pdf'' ''out/a.pdf''
                 (script [Reply pdf_file]) Map.empty)) \<noteq> Map.empty
   \<and> (\<exists>written. snd (snd (download_stream_and_validate ''https://x/y.pdf'' ''out/a.pdf''
                 (script [Reply pdf_file]) Map.empty)) = [''out/a.pdf'' \<mapsto> written])"
proof -
  have e: "pending (script [Reply empty_body]) = Reply empty_body # [] \<and> \<not> http_error empty_body"
    and ec: "r_chunks empty_body = []"
    by (simp_all add: script_def empty_body_def blank_def http_error_def)
  have h: "pending (script [Reply html_page]) = Reply html_page # [] \<and> \<not> http_error html_page"
    and hc: "r_chunks html_page = Chunk ''<html>Not here</html>'' # []
        \<and> \<not> (endswith (lower (if r_url html_page \<noteq> [] then r_url html_page
                                  else ''https://pub.example/article/1'')) ''.pdf''
               \<or> take 4 ''<html>Not here</html>'' = ''%PDF''
               \<or> contains ''<html>Not here</html>'' ''%PDF'')"
    by (simp_all add: script_def html_page_def blank_def http_error_def endswith_def
        lower_def lower_char_def startswith_def)
  have p: "snd (snd (download_stream_and_validate ''https://x/y.pdf'' ''out/a.pdf''
                 (script [Reply pdf_file]) Map.empty)) \<noteq> Map.empty"
    by (simp add: download_stream_and_validate_def http_def script_def pdf_file_def blank_def
        http_error_def)
  note a = validator_writes_only_after_acceptance
    [of "script [Reply empty_body]" "''https://x/empty''" "''out/a.pdf''" Map.empty]
  note b = validator_writes_only_after_acceptance
    [of "script [Reply html_page]" "''https://pub.example/article/1''" "''out/a.pdf''" Map.empty]
  note c = validator_writes_only_after_acceptance
    [of "script [Reply pdf_file]" "''https://x/y.pdf''" "''out/a.pdf''" Map.empty]
  have 1: "download_stream_and_validate ''https://x/empty'' ''out/a.pdf''
        (script [Reply empty_body]) Map.empty
     = ((False, Some ''empty_response''),
        \<lparr>pending = [], calls = [Request Download GET ''https://x/empty'']\<rparr>, Map.empty)"
    using a e ec by (simp add: script_def)
  have 2: "download_stream_and_validate ''https://pub.example/article/1'' ''out/a.pdf''
        (script [Reply html_page]) Map.empty
     = ((False, Some ''not_pdf''),
        \<lparr>pending = [], calls = [Request Download GET ''https://pub.example/article/1'']\<rparr>,
        Map.empty)"
    using b h hc by (simp add: script_def)
  have 3: "\<exists>written. snd (snd (download_stream_and_validate ''https://x/y.pdf'' ''out/a.pdf''
                 (script [Reply pdf_file]) Map.empty)) = [''out/a.pdf'' \<mapsto> written]"
    using c p by blast
  from 1 2 3 p show ?thesis by blast
qed

lemma write_chunks_complete:
  "\<forall>m. Broken m \<notin> set rest \<Longrightarrow> fst (write_chunks rest written) = None"
  by (induction rest written rule: write_chunks.induct) auto

lemma write_chunks_broken:
  "write_chunks (map Chunk cs @ Broken m # later) written = (Some m, written @ concat cs)"
  by (induction cs arbitrary: written) simp_all

text \<open>
  C2, as stated, fails: the page below is served at a URL that ends in \<open>.PDF\<close>, not in
  \<open>.pdf\<close>, and its only chunk holds no \<open>%PDF\<close>, yet the validator accepts it and
  writes it to the destination.
\<close>

theorem validator_suffix_counterexample:
  "\<not> endswith ''https://x/REPORT.PDF'' ''.pdf''
   \<and> take 4 ''<html>Sign in</html>'' \<noteq> ''%PDF''
   \<and> \<not> contains ''<html>Sign in</html>'' ''%PDF''
   \<and> r_url upper_suffix = ''https://x/REPORT.PDF''
   \<and> r_chunks upper_suffix = [Chunk ''<html>Sign in</html>'']
   \<and> download_stream_and_validate ''https://x/REPORT.PDF'' ''out/a.pdf''
        (script [Reply upper_suffix]) Map.empty
     = ((True, None), \<lparr>pending = [], calls = [Request Download GET ''https://x/REPORT.PDF'']\<rparr>,
        [''out/a.pdf'' \<mapsto> ''<html>Sign in</html>''])"
  by (simp add: download_stream_and_validate_def http_def script_def upper_suffix_def blank_def
      http_error_def endswith_def lower_def lower_char_def startswith_def)

text \<open>
  C2, amended. For a response that is not an HTTP error and whose stream has a first chunk,
  the acceptance test is: the final URL (the requested one when the response has none),
  lower-cased, ends in \<open>.pdf\<close>, or the first four bytes of the chunk are \<open>%PDF\<close>, or
  \<open>%PDF\<close> occurs in the chunk. When the test fails the validator returns
  \<open>(False, not_pdf)\<close>; when it passes the destination file is written, and if the rest of
  the stream is not interrupted the validator returns \<open>ok\<close> exactly when the test passes.
\<close>

theorem validator_acceptance:
  assumes "pending n = Reply r # rs" and "\<not> http_error r"
    and "r_chunks r = Chunk first # rest"
  shows "(\<not> (endswith (lower (if r_url r \<noteq> [] then r_url r else url)) ''.pdf''
            \<or> take 4 first = ''%PDF'' \<or> contains first ''%PDF'') \<longrightarrow>
           fst (download_stream_and_validate url out_path n fs) = (False, Some ''not_pdf''))
       \<and> ((endswith (lower (if r_url r \<noteq> [] then r_url r else url)) ''.pdf''
            \<or> take 4 first = ''%PDF'' \<or> contains first ''%PDF'') \<longrightarrow>
           snd (snd (download_stream_and_validate url out_path n fs))
             = fs(out_path \<mapsto> snd (write_chunks rest first)))
       \<and> ((\<forall>m. Broken m \<notin> set rest) \<longrightarrow>
           (fst (download_stream_and_validate url out_path n fs) = (True, None)
            \<longleftrightarrow> endswith (lower (if r_url r \<noteq> [] then r_url r else url)) ''.pdf''
                \<or> take 4 first = ''%PDF'' \<or> contains first ''%PDF''))"
proof -
  note run = validate_reply [OF assms(1,2), of url out_path fs]
  have full: "(\<forall>m. Broken m \<notin> set rest) \<Longrightarrow> fst (write_chunks rest first) = None"
    by (rule write_chunks_complete)
  show ?thesis
    using run full assms(3)
    by (cases "write_chunks rest first") (auto simp: Let_def split: option.splits)
qed

theorem validator_acceptance_witness:
  "pending (script [Reply pdf_file]) = Reply pdf_file # []
   \<and> \<not> http_error pdf_file
   \<and> r_chunks pdf_file = Chunk ''%PDF-1.7 '' # [Chunk ''body'']
   \<and> (\<forall>m. Broken m \<notin> set [Chunk ''body''])
   \<and> take 4 ''%PDF-1.7 '' = ''%PDF''
   \<and> fst (download_stream_and_validate ''https://x/y'' ''out/a.pdf'' (script [Reply pdf_file])
            Map.empty) = (True, None)
   \<and> snd (snd (download_stream_and_validate ''https://x/y'' ''out/a.pdf''
                 (script [Reply pdf_file]) Map.empty)) = [''out/a.pdf'' \<mapsto> ''%PDF-1.7 body'']"
proof -
  have 1: "pending (script [Reply pdf_file]) = Reply pdf_file # []"
    and 2: "\<not> http_error pdf_file"
    and 3: "r_chunks pdf_file = Chunk ''%PDF-1.7 '' # [Chunk ''body'']"
    and 4: "\<forall>m. Broken m \<notin> set [Chunk ''body'']"
    and 5: "take 4 ''%PDF-1.7 '' = ''%PDF''"
    by (simp_all add: script_def pdf_file_def blank_def http_error_def)
  from validator_acceptance [OF 1 2 3, of "''https://x/y''" "''out/a.pdf''" Map.empty] 1 2 3 4 5
  show ?thesis by simp
qed

text \<open>
  C10. When the response is not an error, the acceptance test passes on the first chunk, and
  the stream raises after some further chunks, the validator returns \<open>ok = False\<close> with the
  message of the exception, and the destination file exists and holds the first chunk
  followed by the chunks read before the failure: a prefix of the stream stays on disk.
\<close>

theorem validator_partial_file:
  assumes "pending n = Reply r # rs" and "\<not> http_error r"
    and "r_chunks r = Chunk first # map Chunk cs @ Broken m # later"
    and "endswith (lower (if r_url r \<noteq> [] then r_url r else url)) ''.pdf''
         \<or> take 4 first = ''%PDF'' \<or> contains first ''%PDF''"
  shows "download_stream_and_validate url out_path n fs
           = ((False, Some m), \<lparr>pending = rs, calls = calls n @ [Request Download GET url]\<rparr>,
              fs(out_path \<mapsto> first @ concat cs))
         \<and> download_file_with_validation url out_path n fs
           = ((False, Some m), \<lparr>pending = rs, calls = calls n @ [Request Download GET url]\<rparr>,
              fs(out_path \<mapsto> first @ concat cs))"
  using validate_reply [OF assms(1,2), of url out_path fs] assms(3,4)
  by (simp add: Let_def write_chunks_broken validators_agree)

theorem validator_partial_file_witness:
  "pending (script [Reply cut_pdf]) = Reply cut_pdf # []
   \<and> \<not> http_error cut_pdf
   \<and> r_chunks cut_pdf
       = Chunk ''%PDF-1.7 '' # map Chunk [''body''] @ Broken ''Connection broken'' # [Chunk ''tail'']
   \<and> take 4 ''%PDF-1.7 '' = ''%PDF''
   \<and> download_stream_and_validate ''https://x/y.pdf'' ''out/a.pdf'' (script [Reply cut_pdf])
        Map.empty
       = ((False, Some ''Connection broken''),
          \<lparr>pending = [], calls = [Request Download GET ''https://x/y.pdf'']\<rparr>,
          [''out/a.pdf'' \<mapsto> ''%PDF-1.7 body''])"
proof -
  have 1: "pending (script [Reply cut_pdf]) = Reply cut_pdf # []"
    and 2: "\<not> http_error cut_pdf"
    and 3: "r_chunks cut_pdf
       = Chunk ''%PDF-1.7 '' # map Chunk [''body''] @ Broken ''Connection broken'' # [Chunk ''tail'']"
    and 4: "take 4 ''%PDF-1.7 '' = ''%PDF''"
    by (simp_all add: script_def cut_pdf_def blank_def http_error_def)
  have 5: "endswith (lower (if r_url cut_pdf \<noteq> [] then r_url cut_pdf else ''https://x/y.pdf''))
             ''.pdf''
           \<or> take 4 ''%PDF-1.7 '' = ''%PDF'' \<or> contains ''%PDF-1.7 '' ''%PDF''"
    using 4 by simp
  from validator_partial_file [OF 1 2 3 5, of "''out/a.pdf''" Map.empty] 1 2 3 4
  show ?thesis by (simp add: script_def)
qed

section \<open>The arXiv construction\<close>

text \<open>
  C4, as stated, fails on its own example: the identifier of the record begins with
  \<open>http://\<close>, the replacement keeps that scheme, and the resolver returns the
  \<open>http\<close> address, not the \<open>https\<close> one.
\<close>

theorem arxiv_scheme_counterexample:
  "fst (resolve_pdf_url arxiv_row (Some ''you@domain.com'') (script []))
     = (Some ''http://arxiv.org/pdf/1234.5678.pdf'', ''arxiv_construct'')
   \<and> fst (resolve_pdf_url arxiv_row (Some ''you@domain.com'') (script []))
     \<noteq> (Some ''https://arxiv.org/pdf/1234.5678.pdf'', ''arxiv_construct'')"
  by (simp add: resolve_pdf_url_def arxiv_row_def por_def truthy_def str_of_def lower_def
      lower_char_def startswith_def endswith_def Let_def)

text \<open>
  C4, amended. For a row with source \<open>arxiv\<close>, no \<open>pdf_url\<close> and no \<open>pdf\<close>, and
  identifier \<open>ident\<close>: when \<open>ident\<close> contains \<open>arxiv.org/abs/\<close> the resolver returns
  \<open>ident\<close> with every \<open>/abs/\<close> replaced by \<open>/pdf/\<close>, and \<open>.pdf\<close> appended unless it is
  there already; otherwise, when \<open>ident\<close> is \<open>arXiv:\<close> followed by \<open>aid\<close>, it returns
  \<open>https://arxiv.org/pdf/aid.pdf\<close>. The method is \<open>arxiv_construct\<close> and no request is
  made. The record of scenario A resolves to \<open>http://arxiv.org/pdf/1234.5678.pdf\<close>.
\<close>

theorem arxiv_construct:
  assumes "\<not> truthy (row ''pdf_url'')" and "\<not> truthy (row ''pdf'')"
    and "row ''source'' = Some ''arxiv''" and "row ''id'' = Some ident"
  shows "(contains ident ''arxiv.org/abs/'' \<longrightarrow>
            resolve_pdf_url row email n =
              ((Some (if endswith (replace ident ''/abs/'' ''/pdf/'') ''.pdf''
                      then replace ident ''/abs/'' ''/pdf/''
                      else replace ident ''/abs/'' ''/pdf/'' @ ''.pdf''), ''arxiv_construct''), n))
       \<and> (\<not> contains ident ''arxiv.org/abs/'' \<and> ident = ''arXiv:'' @ aid \<longrightarrow>
            resolve_pdf_url row email n =
              ((Some (''https://arxiv.org/pdf/'' @ aid @ ''.pdf''), ''arxiv_construct''), n))
       \<and> resolve_pdf_url arxiv_row email n =
              ((Some ''http://arxiv.org/pdf/1234.5678.pdf'', ''arxiv_construct''), n)"
proof (intro conjI impI)
  have src: "lower (str_of (row ''source'')) = ''arxiv''"
    using assms(3) by (simp add: str_of_def lower_def lower_char_def)
  have nopdf: "\<not> truthy (por (por (row ''pdf_url'') (row ''pdf'')) None)"
    using assms(1,2) by (auto simp: por_def truthy_def)
  {
    assume c: "contains ident ''arxiv.org/abs/''"
    then have "ident \<noteq> []" by (cases ident) simp_all
    then have id: "str_of (por (por (row ''id'') (row ''article_id'')) (Some [])) = ident"
      using assms(4) by (simp add: por_def truthy_def str_of_def)
    show "resolve_pdf_url row email n =
              ((Some (if endswith (replace ident ''/abs/'' ''/pdf/'') ''.pdf''
                      then replace ident ''/abs/'' ''/pdf/''
                      else replace ident ''/abs/'' ''/pdf/'' @ ''.pdf''), ''arxiv_construct''), n)"
      using src nopdf id c \<open>ident \<noteq> []\<close> by (simp add: resolve_pdf_url_def Let_def)
  }
  {
    assume a: "\<not> contains ident ''arxiv.org/abs/'' \<and> ident = ''arXiv:'' @ aid"
    then have ne: "ident \<noteq> []" and nc: "\<not> contains ident ''arxiv.org/abs/''" by auto
    then have id: "str_of (por (por (row ''id'') (row ''article_id'')) (Some [])) = ident"
      using assms(4) by (simp add: por_def truthy_def str_of_def)
    have st: "startswith ident ''arXiv:''" and rest: "drop 1 (dropWhile (\<lambda>c. c \<noteq> CHR '':'') ident) = aid"
      using a by (simp_all add: startswith_def)
    show "resolve_pdf_url row email n =
              ((Some (''https://arxiv.org/pdf/'' @ aid @ ''.pdf''), ''arxiv_construct''), n)"
      using src nopdf id nc ne st rest by (simp add: resolve_pdf_url_def Let_def)
  }
  show "resolve_pdf_url arxiv_row email n =
              ((Some ''http://arxiv.org/pdf/1234.5678.pdf'', ''arxiv_construct''), n)"
    by (simp add: resolve_pdf_url_def arxiv_row_def por_def truthy_def str_of_def lower_def
        lower_char_def startswith_def endswith_def Let_def)
qed

theorem arxiv_construct_witness:
  "\<not> truthy (arxiv_row ''pdf_url'') \<and> \<not> truthy (arxiv_row ''pdf'')
   \<and> arxiv_row ''source'' = Some ''arxiv''
   \<and> arxiv_row ''id'' = Some ''http://arxiv.org/abs/1234.5678''
   \<and> contains ''http://arxiv.org/abs/1234.5678'' ''arxiv.org/abs/''
   \<and> resolve_pdf_url arxiv_row None (script []) =
       ((Some ''http://arxiv.org/pdf/1234.5678.pdf'', ''arxiv_construct''), script [])
   \<and> \<not> contains ''arXiv:1234.5678'' ''arxiv.org/abs/''
   \<and> resolve_pdf_url (arxiv_row(''id'' \<mapsto> ''arXiv:1234.5678'')) None (script []) =
       ((Some ''https://arxiv.org/pdf/1234.5678.pdf'', ''arxiv_construct''), script [])"
proof -
  have 1: "\<not> truthy (arxiv_row ''pdf_url'')" and 2: "\<not> truthy (arxiv_row ''pdf'')"
    and 3: "arxiv_row ''source'' = Some ''arxiv''"
    and 4: "arxiv_row ''id'' = Some ''http://arxiv.org/abs/1234.5678''"
    by (simp_all add: arxiv_row_def truthy_def)
  have 5: "contains ''http://arxiv.org/abs/1234.5678'' ''arxiv.org/abs/''"
    by (simp add: startswith_def)
  have 6: "\<not> contains ''arXiv:1234.5678'' ''arxiv.org/abs/''"
    by (simp add: startswith_def)
  have q1: "\<not> truthy ((arxiv_row(''id'' \<mapsto> ''arXiv:1234.5678'')) ''pdf_url'')"
    and q2: "\<not> truthy ((arxiv_row(''id'' \<mapsto> ''arXiv:1234.5678'')) ''pdf'')"
    and q3: "(arxiv_row(''id'' \<mapsto> ''arXiv:1234.5678'')) ''source'' = Some ''arxiv''"
    and q4: "(arxiv_row(''id'' \<mapsto> ''arXiv:1234.5678'')) ''id'' = Some ''arXiv:1234.5678''"
    by (simp_all add: arxiv_row_def truthy_def)
  have 7: "''arXiv:1234.5678'' = ''arXiv:'' @ ''1234.5678''" by simp
  have a: "resolve_pdf_url arxiv_row None (script []) =
       ((Some ''http://arxiv.org/pdf/1234.5678.pdf'', ''arxiv_construct''), script [])"
    using arxiv_construct [OF 1 2 3 4, where aid = "''1234.5678''" and email = None and n = "script []"]
    by blast
  have "resolve_pdf_url (arxiv_row(''id'' \<mapsto> ''arXiv:1234.5678'')) None (script []) =
       ((Some (''https://arxiv.org/pdf/'' @ ''1234.5678'' @ ''.pdf''), ''arxiv_construct''),
        script [])"
    using arxiv_construct [OF q1 q2 q3 q4, where aid = "''1234.5678''" and email = None and n = "script []"] 6 7
    by blast
  then have b: "resolve_pdf_url (arxiv_row(''id'' \<mapsto> ''arXiv:1234.5678'')) None (script []) =
       ((Some ''https://arxiv.org/pdf/1234.5678.pdf'', ''arxiv_construct''), script [])"
    by simp
  from 1 2 3 4 5 6 a b show ?thesis by blast
qed

section \<open>The scrape of a landing page\<close>

lemma link_loop_find: "link_loop url (find_all_href soup ''link'') = scrape_link url soup"
  by (induction soup) (auto simp: find_all_href_def scrape_link_def)

lemma anchor_loop_find: "anchor_loop url (find_all_href soup ''a'') = scrape_anchor url soup"
  by (induction soup) (auto simp: find_all_href_def scrape_anchor_def Let_def)

lemma meta_loop_find:
  "meta_loop url soup names =
     map_option (\<lambda>t. urljoin url (str_of (attr t ''content'')))
       (List.find (\<lambda>t. truthy (attr t ''content'')) (List.map_filter (meta_tag soup) names))"
  by (induction names)
    (auto simp: List.map_filter_simps meta_tag_def soup_find_def split: option.splits)

lemma backtrack_sound:
  "backtrack run = Some p \<Longrightarrow> (\<exists>rest. run = p @ rest) \<and> endswith (lower p) ''.pdf'' \<and> 5 \<le> length p"
proof (induction run rule: backtrack.induct)
  case (1 run)
  show ?case
  proof (cases "length run < 5")
    case True
    with "1.prems" show ?thesis by (simp add: backtrack.simps)
  next
    case long: False
    show ?thesis
    proof (cases "endswith (lower run) ''.pdf''")
      case True
      with long "1.prems" show ?thesis by (simp add: backtrack.simps)
    next
      case False
      with long "1.prems" have "backtrack (butlast run) = Some p" by (simp add: backtrack.simps)
      with "1.IH" long False obtain rest where "butlast run = p @ rest"
        and "endswith (lower p) ''.pdf''" and "5 \<le> length p" by blast
      moreover from long have "run \<noteq> []" by auto
      then have "run = butlast run @ [last run]" by simp
      ultimately show ?thesis by (metis append.assoc)
    qed
  qed
qed

lemma contains_startswith: "startswith s p \<Longrightarrow> contains s p"
  by (cases s) (auto simp: startswith_def)

lemma contains_Cons: "contains s p \<Longrightarrow> contains (c # s) p"
  by simp

lemma endswith_append: "endswith b p \<Longrightarrow> endswith (a @ b) p"
  by (auto simp: endswith_def)

lemma match_here_sound:
  assumes "match_here s = Some m"
  shows "startswith s m \<and> (startswith (lower m) ''http://'' \<or> startswith (lower m) ''https://'')
         \<and> endswith (lower m) ''.pdf'' \<and> list_all url_char (drop 8 m)"
proof -
  define k :: nat where "k = (if startswith (lower s) ''https://'' then 8
               else if startswith (lower s) ''http://'' then 7 else 0)"
  from assms have k0: "k \<noteq> 0"
    by (auto simp: match_here_def k_def Let_def split: if_splits)
  from assms k0 obtain run where run: "backtrack (takeWhile url_char (drop k s)) = Some run"
    and m: "m = take k s @ run"
    by (auto simp: match_here_def k_def Let_def split: if_splits option.splits)
  from backtrack_sound [OF run] obtain rest where
    pre: "takeWhile url_char (drop k s) = run @ rest" and pdf: "endswith (lower run) ''.pdf''"
    by blast
  have "drop k s = takeWhile url_char (drop k s) @ dropWhile url_char (drop k s)" by simp
  with pre have "drop k s = run @ rest @ dropWhile url_char (drop k s)" by simp
  then have "s = take k s @ run @ rest @ dropWhile url_char (drop k s)"
    by (metis append_take_drop_id)
  then have "s = m @ rest @ dropWhile url_char (drop k s)" using m by simp
  then have 1: "startswith s m" by (metis append_eq_conv_conj startswith_def)
  have sch: "take k (lower s) = (if k = 8 then ''https://'' else ''http://'')"
    using k0 by (auto simp: k_def startswith_def eval_nat_numeral split: if_splits)
  have "lower m = take k (lower s) @ lower run"
    using m by (simp add: lower_def take_map)
  with sch have 2: "startswith (lower m) ''http://'' \<or> startswith (lower m) ''https://''"
    by (auto simp: startswith_def)
  have 3: "endswith (lower m) ''.pdf''"
    using m pdf by (simp add: lower_def endswith_append)
  have "list_all url_char (run @ rest)"
    using pre by (metis list_all_iff set_takeWhileD)
  then have "list_all url_char run" by simp
  moreover have "k \<le> 8" by (simp add: k_def)
  ultimately have 4: "list_all url_char (drop 8 m)"
    using m by (auto simp: list_all_iff dest: in_set_dropD)
  from 1 2 3 4 show ?thesis by blast
qed

lemma re_search_pdf_sound:
  "re_search_pdf html = Some m \<Longrightarrow>
     contains html m \<and> (startswith (lower m) ''http://'' \<or> startswith (lower m) ''https://'')
     \<and> endswith (lower m) ''.pdf'' \<and> list_all url_char (drop 8 m)"
proof (induction html)
  case Nil
  then show ?case by simp
next
  case (Cons c cs)
  show ?case
  proof (cases "match_here (c # cs)")
    case None
    with Cons show ?thesis by simp
  next
    case (Some m')
    with Cons.prems have "m' = m" by simp
    with Some match_here_sound [of "c # cs" m] show ?thesis
      by (simp add: contains_startswith del: contains.simps)
  qed
qed

lemma extract_first_some:
  "extract_pdf_from_html url html (Some soup) =
     first_some [scrape_meta url soup, scrape_link url soup, scrape_anchor url soup,
                 re_search_pdf html]"
proof -
  have m: "meta_loop url soup [''citation_pdf_url'', ''pdf_url''] = scrape_meta url soup"
    by (simp only: meta_loop_find scrape_meta_def)
  show ?thesis
    unfolding extract_pdf_from_html_def option.case m link_loop_find anchor_loop_find
    by (cases "scrape_meta url soup"; cases "scrape_link url soup";
        cases "scrape_anchor url soup"; cases "re_search_pdf html") simp_all
qed

lemma landing_uses_final_url:
  assumes "pending n = Reply r # rs"
    and "\<not> contains (lower (str_of (r_ctype r))) ''pdf''"
    and "\<not> endswith (lower (r_url r)) ''.pdf''"
    and "truthy (extract_pdf_from_html (r_url r) (r_text r) (r_soup r))"
  shows "\<exists>verified. fst (landing_loop (c # cs) n) =
           Some (por verified (extract_pdf_from_html (r_url r) (r_text r) (r_soup r)),
                 ''landing_parsed'')"
  using assms by (auto simp: http_def Let_def split: prod.splits)

text \<open>
  C5. On a parsed page the scrape returns the first result, in this order, of: the meta
  tags \<open>citation_pdf_url\<close> and \<open>pdf_url\<close> (by name, else by property); the first link
  element with an \<open>href\<close> whose type contains \<open>pdf\<close>; the first anchor whose \<open>href\<close>
  ends in \<open>.pdf\<close> or contains \<open>download\<close> with \<open>pdf\<close> or \<open>fulltext\<close> (letter case
  ignored); the regex scan of the raw text. What the scan finds occurs in the text, starts
  with \<open>http://\<close> or \<open>https://\<close> and ends in \<open>.pdf\<close>. The first three are joined to
  the URL given to the scrape, and the resolver gives it the final URL of the landing
  response, whatever candidate it requested. The page of scenario C, at
  \<open>https://pub.example/article/1\<close>, yields \<open>https://pub.example/f/paper.pdf\<close>, also
  when the resolver reaches it through a redirect from another address.
\<close>

theorem scrape_order:
  "extract_pdf_from_html url html (Some soup) =
     first_some [scrape_meta url soup, scrape_link url soup, scrape_anchor url soup,
                 re_search_pdf html]
   \<and> (\<forall>m. re_search_pdf html = Some m \<longrightarrow>
         contains html m
         \<and> (startswith (lower m) ''http://'' \<or> startswith (lower m) ''https://'')
         \<and> endswith (lower m) ''.pdf'')
   \<and> (\<forall>r rs. pending n = Reply r # rs
         \<and> \<not> contains (lower (str_of (r_ctype r))) ''pdf''
         \<and> \<not> endswith (lower (r_url r)) ''.pdf''
         \<and> truthy (extract_pdf_from_html (r_url r) (r_text r) (r_soup r)) \<longrightarrow>
         (\<exists>verified. fst (landing_loop (c # cs) n) =
            Some (por verified (extract_pdf_from_html (r_url r) (r_text r) (r_soup r)),
                  ''landing_parsed'')))
   \<and> extract_pdf_from_html ''https://pub.example/article/1'' (r_text meta_page) (r_soup meta_page)
       = Some ''https://pub.example/f/paper.pdf''
   \<and> fst (resolve_pdf_url landing_row None
             (script [Reply html_page, Reply meta_page, Failed ''timed out'']))
       = (Some ''https://pub.example/f/paper.pdf'', ''landing_parsed'')"
proof (intro conjI allI impI)
  show "extract_pdf_from_html url html (Some soup) =
     first_some [scrape_meta url soup, scrape_link url soup, scrape_anchor url soup,
                 re_search_pdf html]"
    by (rule extract_first_some)
next
  fix m
  assume "re_search_pdf html = Some m"
  from re_search_pdf_sound [OF this]
  show "contains html m"
    and "startswith (lower m) ''http://'' \<or> startswith (lower m) ''https://''"
    and "endswith (lower m) ''.pdf''"
    by blast+
next
  fix r rs
  assume "pending n = Reply r # rs
         \<and> \<not> contains (lower (str_of (r_ctype r))) ''pdf''
         \<and> \<not> endswith (lower (r_url r)) ''.pdf''
         \<and> truthy (extract_pdf_from_html (r_url r) (r_text r) (r_soup r))"
  then show "\<exists>verified. fst (landing_loop (c # cs) n) =
            Some (por verified (extract_pdf_from_html (r_url r) (r_text r) (r_soup r)),
                  ''landing_parsed'')"
    using landing_uses_final_url by blast
next
  show "extract_pdf_from_html ''https://pub.example/article/1'' (r_text meta_page)
          (r_soup meta_page) = Some ''https://pub.example/f/paper.pdf''"
    by code_simp
next
  show "fst (resolve_pdf_url landing_row None
             (script [Reply html_page, Reply meta_page, Failed ''timed out'']))
       = (Some ''https://pub.example/f/paper.pdf'', ''landing_parsed'')"
    by code_simp
qed

theorem scrape_order_witness:
  "re_search_pdf ''see https://pub.example/f/paper.pdf now'' = Some ''https://pub.example/f/paper.pdf''
   \<and> contains ''see https://pub.example/f/paper.pdf now'' ''https://pub.example/f/paper.pdf''
   \<and> pending (script [Reply meta_page, Failed ''timed out'']) = Reply meta_page # [Failed ''timed out'']
   \<and> \<not> contains (lower (str_of (r_ctype meta_page))) ''pdf''
   \<and> \<not> endswith (lower (r_url meta_page)) ''.pdf''
   \<and> truthy (extract_pdf_from_html (r_url meta_page) (r_text meta_page) (r_soup meta_page))
   \<and> (\<exists>verified. fst (landing_loop [''https://doi.example/r/1'']
                        (script [Reply meta_page, Failed ''timed out''])) =
         Some (por verified (Some ''https://pub.example/f/paper.pdf''), ''landing_parsed''))"
proof -
  have 1: "re_search_pdf ''see https://pub.example/f/paper.pdf now''
             = Some ''https://pub.example/f/paper.pdf''"
    by code_simp
  have 2: "pending (script [Reply meta_page, Failed ''timed out''])
             = Reply meta_page # [Failed ''timed out'']"
    by (simp add: script_def)
  have 3: "\<not> contains (lower (str_of (r_ctype meta_page))) ''pdf''"
    and 4: "\<not> endswith (lower (r_url meta_page)) ''.pdf''"
    by code_simp+
  have 5: "extract_pdf_from_html (r_url meta_page) (r_text meta_page) (r_soup meta_page)
             = Some ''https://pub.example/f/paper.pdf''"
    by code_simp
  then have 6: "truthy (extract_pdf_from_html (r_url meta_page) (r_text meta_page)
                          (r_soup meta_page))"
    by (simp add: truthy_def)
  note t = scrape_order [of _ "''see https://pub.example/f/paper.pdf now''" _
      "script [Reply meta_page, Failed ''timed out'']" "''https://doi.example/r/1''" "[]"]
  from t 1 have a: "contains ''see https://pub.example/f/paper.pdf now''
                      ''https://pub.example/f/paper.pdf''"
    by blast
  from t 2 3 4 6 have "\<exists>verified. fst (landing_loop [''https://doi.example/r/1'']
                        (script [Reply meta_page, Failed ''timed out''])) =
         Some (por verified (extract_pdf_from_html (r_url meta_page) (r_text meta_page)
                               (r_soup meta_page)), ''landing_parsed'')"
    by blast
  with 5 have b: "\<exists>verified. fst (landing_loop [''https://doi.example/r/1'']
                        (script [Reply meta_page, Failed ''timed out''])) =
         Some (por verified (Some ''https://pub.example/f/paper.pdf''), ''landing_parsed'')"
    by simp
  from 1 a 2 3 4 6 b show ?thesis by blast
qed

section \<open>The order of the strategies\<close>

lemma http_calls: "calls (snd (http q n)) = calls n @ [q]"
  by (simp add: http_def split: list.splits)

lemma http_callsD: "http q n = (rp, n') \<Longrightarrow> calls n' = calls n @ [q]"
  using http_calls [of q n] by simp

lemma emits_none: "(\<And>n. snd (s n) = n) \<Longrightarrow> emits k s"
  by (simp add: emits_def)

lemma unpaywall_snd:
  "snd (unpaywall_pdf_for_doi doi email n) =
     (if doi = [] \<or> \<not> truthy email then n
      else snd (http (Request Api_lookup GET (''https://api.unpaywall.org/v2/'' @ quote_plus doi)) n))"
  by (simp add: unpaywall_pdf_for_doi_def Let_def split: prod.splits reply.splits option.splits)

lemma unpaywall_calls:
  "calls (snd (unpaywall_pdf_for_doi doi email n)) =
     calls n @ (if doi = [] \<or> \<not> truthy email then []
                else [Request Api_lookup GET (''https://api.unpaywall.org/v2/'' @ quote_plus doi)])"
  by (simp add: unpaywall_snd http_calls)

lemma unpaywall_scraper_snd:
  "snd (unpaywall_pdf_for_doi_scraper doi email n) =
     (if \<not> truthy doi \<or> \<not> truthy email then n
      else snd (http (Request Api_lookup GET (''https://api.unpaywall.org/v2/'' @ str_of doi)) n))"
  by (simp add: unpaywall_pdf_for_doi_scraper_def Let_def
      split: prod.splits reply.splits option.splits)

lemma unpaywall_scraper_calls:
  "calls (snd (unpaywall_pdf_for_doi_scraper doi email n)) =
     calls n @ (if \<not> truthy doi \<or> \<not> truthy email then []
                else [Request Api_lookup GET (''https://api.unpaywall.org/v2/'' @ str_of doi)])"
  by (simp add: unpaywall_scraper_snd http_calls)

lemma negotiation_snd:
  "snd (try_doi_content_negotiation doi n) =
     (if doi = [] then n
      else snd (http (Request Content_negotiation GET
                        (if startswith doi ''http'' then doi else ''https://doi.org/'' @ doi)) n))"
proof (cases "doi = []")
  case True
  then show ?thesis by (simp add: try_doi_content_negotiation_def)
next
  case False
  define u where "u = (if startswith doi ''http'' then doi else ''https://doi.org/'' @ doi)"
  obtain rp n' where h: "http (Request Content_negotiation GET u) n = (rp, n')"
    by (cases "http (Request Content_negotiation GET u) n")
  have "snd (try_doi_content_negotiation doi n) = n'"
    using False h unfolding try_doi_content_negotiation_def Let_def u_def [symmetric]
    by (cases rp) simp_all
  with False h show ?thesis by (simp add: u_def)
qed

lemma negotiation_calls:
  "\<exists>xs. calls (snd (try_doi_content_negotiation doi n)) = calls n @ xs
        \<and> (\<forall>q \<in> set xs. stage_of q = Content_negotiation)"
  by (simp add: negotiation_snd http_calls)

lemma negotiate_snd:
  "snd (negotiate c n) =
     snd (http (Request Content_negotiation GET
                  (if startswith c ''10.'' then ''https://doi.org/'' @ c
                   else if startswith c ''http'' then c else ''https://'' @ c)) n)"
proof -
  define u where "u = (if startswith c ''10.'' then ''https://doi.org/'' @ c
                   else if startswith c ''http'' then c else ''https://'' @ c)"
  obtain rp n' where h: "http (Request Content_negotiation GET u) n = (rp, n')"
    by (cases "http (Request Content_negotiation GET u) n")
  have "snd (negotiate c n) = n'"
    using h unfolding negotiate_def Let_def u_def [symmetric]
    by (cases rp) simp_all
  with h show ?thesis by (simp add: u_def)
qed

lemma negotiate_calls:
  "\<exists>xs. calls (snd (negotiate c n)) = calls n @ xs
        \<and> (\<forall>q \<in> set xs. stage_of q = Content_negotiation)"
  by (simp add: negotiate_snd http_calls)

lemma head_is_pdf_snd: "snd (head_is_pdf st u n) = snd (http (Request st HEAD u) n)"
  by (simp add: head_is_pdf_def split: prod.splits reply.splits)

lemma head_is_pdf_callsD:
  "head_is_pdf st u n = (v, n') \<Longrightarrow> calls n' = calls n @ [Request st HEAD u]"
  using head_is_pdf_snd [of st u n] http_calls [of "Request st HEAD u" n] by simp

lemma head_loop_calls:
  "\<exists>xs. calls (snd (head_loop cs n)) = calls n @ xs
        \<and> (\<forall>q \<in> set xs. stage_of q = Candidate_probe)"
proof (induction cs arbitrary: n)
  case Nil
  then show ?case by simp
next
  case (Cons c cs)
  obtain hpdf n' where h: "head_is_pdf Candidate_probe c n = (hpdf, n')"
    by (cases "head_is_pdf Candidate_probe c n")
  note c1 = head_is_pdf_callsD [OF h]
  from Cons.IH [of n'] obtain xs where
    "calls (snd (head_loop cs n')) = calls n' @ xs" "\<forall>q \<in> set xs. stage_of q = Candidate_probe"
    by blast
  with h c1 show ?case by (cases "truthy hpdf") auto
qed

lemma landing_loop_calls:
  "\<exists>xs. calls (snd (landing_loop cs n)) = calls n @ xs
        \<and> (\<forall>q \<in> set xs. stage_of q = Landing_scrape)"
proof (induction cs arbitrary: n)
  case Nil
  then show ?case by simp
next
  case (Cons c cs)
  obtain rp n' where h: "http (Request Landing_scrape GET c) n = (rp, n')"
    by (cases "http (Request Landing_scrape GET c) n")
  note c1 = http_callsD [OF h]
  from Cons.IH [of n'] obtain xs where
    ih: "calls (snd (landing_loop cs n')) = calls n' @ xs"
      "\<forall>q \<in> set xs. stage_of q = Landing_scrape"
    by blast
  show ?case
  proof (cases rp)
    case (Failed m)
    with h c1 ih show ?thesis by auto
  next
    case (Reply r)
    show ?thesis
    proof (cases "contains (lower (str_of (r_ctype r))) ''pdf'' \<or> endswith (lower (r_url r)) ''.pdf''")
      case True
      with h Reply c1 show ?thesis by (auto simp: Let_def)
    next
      case direct: False
      show ?thesis
      proof (cases "truthy (extract_pdf_from_html (r_url r) (r_text r) (r_soup r))")
        case False
        with direct h Reply c1 ih show ?thesis by (auto simp: Let_def)
      next
        case True
        obtain v n'' where hv: "head_is_pdf Landing_scrape
            (str_of (extract_pdf_from_html (r_url r) (r_text r) (r_soup r))) n' = (v, n'')"
          by (cases "head_is_pdf Landing_scrape
            (str_of (extract_pdf_from_html (r_url r) (r_text r) (r_soup r))) n'")
        note c2 = head_is_pdf_callsD [OF hv]
        have "snd (landing_loop (c # cs) n) = n''"
          using True direct h Reply hv by (simp add: Let_def)
        with c1 c2 show ?thesis by simp
      qed
    qed
  qed
qed

lemma scrape_landing_calls:
  "\<exists>xs. calls (snd (scrape_landing c n)) = calls n @ xs
        \<and> (\<forall>q \<in> set xs. stage_of q = Landing_scrape)"
proof -
  obtain rp n' where h: "http (Request Landing_scrape GET c) n = (rp, n')"
    by (cases "http (Request Landing_scrape GET c) n")
  note c1 = http_callsD [OF h]
  show ?thesis
  proof (cases rp)
    case (Failed m)
    with h c1 show ?thesis by (simp add: scrape_landing_def)
  next
    case (Reply r)
    define p where "p = extract_pdf_from_html (r_url r) (r_text r) (r_soup r)"
    obtain rp2 n'' where h2: "http (Request Landing_scrape HEAD (str_of p)) n' = (rp2, n'')"
      by (cases "http (Request Landing_scrape HEAD (str_of p)) n'")
    note c2 = http_callsD [OF h2]
    have "snd (scrape_landing c n) = n' \<or> snd (scrape_landing c n) = n''"
      using h Reply h2
      by (auto simp: scrape_landing_def Let_def p_def split: reply.splits)
    with c1 c2 show ?thesis by auto
  qed
qed

lemma sorted_constant: "\<forall>q \<in> set xs. f q = (k::nat) \<Longrightarrow> sorted (map f xs)"
  by (induction xs) auto

lemma first_success_sorted:
  "list_all2 emits ks ss \<Longrightarrow> sorted ks \<Longrightarrow>
     \<exists>xs. calls (snd (first_success ss n)) = calls n @ xs
          \<and> sorted (map (\<lambda>q. rank (stage_of q)) xs)
          \<and> (\<forall>q \<in> set xs. rank (stage_of q) \<in> set ks)"
proof (induction ks ss arbitrary: n rule: list_all2_induct)
  case Nil
  then show ?case by simp
next
  case (Cons k ks s ss)
  from Cons.hyps(1) obtain xs1 where
    x1: "calls (snd (s n)) = calls n @ xs1" "\<forall>q \<in> set xs1. rank (stage_of q) = k"
    unfolding emits_def by blast
  obtain v n' where sn: "s n = (v, n')" by (cases "s n")
  from Cons.prems have "sorted ks" and le: "\<forall>j \<in> set ks. k \<le> j" by simp_all
  from Cons.IH [OF \<open>sorted ks\<close>, of n'] obtain xs2 where
    x2: "calls (snd (first_success ss n')) = calls n' @ xs2"
      "sorted (map (\<lambda>q. rank (stage_of q)) xs2)" "\<forall>q \<in> set xs2. rank (stage_of q) \<in> set ks"
    by blast
  show ?case
  proof (cases v)
    case None
    with sn have "snd (first_success (s # ss) n) = snd (first_success ss n')" by simp
    with x1 x2 sn have c: "calls (snd (first_success (s # ss) n)) = calls n @ xs1 @ xs2" by simp
    have "sorted (map (\<lambda>q. rank (stage_of q)) (xs1 @ xs2))"
      using x1(2) x2(2,3) le sorted_constant [of xs1 "\<lambda>q. rank (stage_of q)" k]
      by (auto simp: sorted_append)
    moreover have "\<forall>q \<in> set (xs1 @ xs2). rank (stage_of q) \<in> set (k # ks)"
      using x1(2) x2(3) by auto
    ultimately show ?thesis using c by blast
  next
    case (Some found)
    with sn have "snd (first_success (s # ss) n) = n'" by simp
    with x1 sn have c: "calls (snd (first_success (s # ss) n)) = calls n @ xs1" by simp
    have "sorted (map (\<lambda>q. rank (stage_of q)) xs1)"
      using x1(2) sorted_constant [of xs1 "\<lambda>q. rank (stage_of q)" k] by simp
    with c x1(2) show ?thesis by auto
  qed
qed

lemma ident_eq:
  "str_of (por (por (row ''id'') (row ''article_id'')) (Some [])) =
     (if truthy (row ''id'') then str_of (row ''id'') else str_of (row ''article_id''))"
  by (auto simp: por_def truthy_def str_of_def split: option.splits)

lemma doi_eq: "str_of (por v (Some [])) = str_of v"
  by (auto simp: por_def truthy_def str_of_def split: option.splits)

lemma str_of_nonempty: "str_of v \<noteq> [] \<longleftrightarrow> truthy v"
  by (auto simp: truthy_def str_of_def split: option.splits)

lemma csv_eq:
  "por (por a b) None = (if truthy a then a else if truthy b then b else None)"
  by (auto simp: por_def truthy_def)

lemma arxiv_id:
  assumes "startswith ident ''arXiv:''"
  shows "drop 1 (dropWhile (\<lambda>c. c \<noteq> CHR '':'') ident) = drop 6 ident"
proof -
  have "length ''arXiv:'' = 6" by simp
  with assms have "take 6 ident = ''arXiv:''" unfolding startswith_def by metis
  moreover have "ident = take 6 ident @ drop 6 ident" by simp
  ultimately have "ident = ''arXiv:'' @ drop 6 ident" by metis
  then obtain rest where r: "ident = ''arXiv:'' @ rest" by blast
  show ?thesis unfolding r by simp
qed

lemma contains_nonempty: "contains s p \<Longrightarrow> p \<noteq> [] \<Longrightarrow> s \<noteq> []"
  by (cases s) auto

lemma startswith_nonempty: "startswith s p \<Longrightarrow> p \<noteq> [] \<Longrightarrow> s \<noteq> []"
  by (cases s) (auto simp: startswith_def)

lemma candidates_chain:
  "resolve_candidates row n =
     (case first_success [candidate_probe row, landing_scrape row] n of
        (Some found, n') \<Rightarrow> (found, n')
      | (None, n') \<Rightarrow> ((None, ''no_pdf_found''), n'))"
proof -
  obtain hpdf n3 where h: "head_loop (candidates_of row) n = (hpdf, n3)"
    by (cases "head_loop (candidates_of row) n")
  obtain lp n4 where l: "landing_loop (candidates_of row) n3 = (lp, n4)"
    by (cases "landing_loop (candidates_of row) n3")
  show ?thesis
    unfolding resolve_candidates_def candidates_of_def [symmetric] Let_def
      candidate_probe_def landing_scrape_def
    using h l by (cases lp) simp_all
qed

lemma by_doi_chain:
  "resolve_by_doi row email n =
     (case first_success [api_lookup row email, content_negotiation row, candidate_probe row,
                          landing_scrape row] n of
        (Some found, n') \<Rightarrow> (found, n')
      | (None, n') \<Rightarrow> ((None, ''no_pdf_found''), n'))"
proof -
  define doi where "doi = str_of (row ''doi'')"
  have d: "str_of (por (row ''doi'') (Some [])) = doi" "truthy (row ''doi'') \<longleftrightarrow> doi \<noteq> []"
    by (simp_all add: doi_def doi_eq str_of_nonempty)
  obtain up n1 where u: "(if doi \<noteq> [] \<and> truthy email then unpaywall_pdf_for_doi doi email n
             else (None, n)) = (up, n1)"
    by (cases "(if doi \<noteq> [] \<and> truthy email then unpaywall_pdf_for_doi doi email n
             else (None, n))")
  obtain dn n2 where c: "(if doi \<noteq> [] \<and> is_doi_like doi then try_doi_content_negotiation doi n1
                    else (None, n1)) = (dn, n2)"
    by (cases "(if doi \<noteq> [] \<and> is_doi_like doi then try_doi_content_negotiation doi n1
                    else (None, n1))")
  have a: "api_lookup row email n = (if truthy up then Some (up, ''unpaywall'') else None, n1)"
    using u unfolding api_lookup_def d doi_def [symmetric]
    by (auto simp: truthy_def split: if_splits)
  have b: "content_negotiation row n1 = (if truthy dn then Some (dn, ''doi_negotiation'') else None, n2)"
    using c unfolding content_negotiation_def d doi_def [symmetric]
    by (auto simp: truthy_def split: if_splits)
  have "resolve_by_doi row email n =
      (if truthy up then ((up, ''unpaywall''), n1)
       else if truthy dn then ((dn, ''doi_negotiation''), n2)
       else resolve_candidates row n2)"
    unfolding resolve_by_doi_def d Let_def u prod.case c by simp
  then show ?thesis
    unfolding candidates_chain using a b by simp
qed

lemma source_construct_snd: "snd (source_construct row n) = n"
  by (simp add: source_construct_def Let_def)

lemma csv_direct_snd: "snd (csv_direct row n) = n"
  by (simp add: csv_direct_def)

lemma source_construct_eq:
  "fst (source_construct row n) =
     (let source = lower (str_of (row ''source''));
          ident = str_of (por (por (row ''id'') (row ''article_id'')) (Some []))
      in if source = ''arxiv'' \<and> ident \<noteq> [] \<and> contains ident ''arxiv.org/abs/'' then
           (let pdf_link = replace ident ''/abs/'' ''/pdf/'' in
            Some (Some (if \<not> endswith pdf_link ''.pdf'' then pdf_link @ ''.pdf'' else pdf_link),
                  ''arxiv_construct''))
         else if source = ''arxiv'' \<and> ident \<noteq> [] \<and> startswith ident ''arXiv:'' then
           (let aid = drop 1 (dropWhile (\<lambda>c. c \<noteq> CHR '':'') ident) in
            Some (Some (''https://arxiv.org/pdf/'' @ aid @ ''.pdf''), ''arxiv_construct''))
         else None)"
proof -
  define ident where "ident = str_of (por (por (row ''id'') (row ''article_id'')) (Some []))"
  have i: "(if truthy (row ''id'') then str_of (row ''id'') else str_of (row ''article_id'')) = ident"
    by (simp add: ident_def ident_eq)
  have c: "contains ident ''arxiv.org/abs/'' \<Longrightarrow> ident \<noteq> []"
    using contains_nonempty [of ident "''arxiv.org/abs/''"] by simp
  have s: "startswith ident ''arXiv:'' \<Longrightarrow> ident \<noteq> []"
    using startswith_nonempty [of ident "''arXiv:''"] by simp
  have a: "startswith ident ''arXiv:'' \<Longrightarrow>
      drop (Suc 0) (dropWhile (\<lambda>c. c \<noteq> CHR '':'') ident) = drop 6 ident"
    using arxiv_id [of ident] by simp
  show ?thesis
    unfolding source_construct_def Let_def i ident_def [symmetric]
    using c s by (auto simp: a)
qed

lemma resolve_chain:
  "resolve_pdf_url row email n =
     (case first_success [csv_direct row, source_construct row, api_lookup row email,
                          content_negotiation row, candidate_probe row, landing_scrape row] n of
        (Some found, n') \<Rightarrow> (found, n')
      | (None, n') \<Rightarrow> ((None, ''no_pdf_found''), n'))"
proof (cases "truthy (row ''pdf_url'') \<or> truthy (row ''pdf'')")
  case True
  then show ?thesis
    by (auto simp: resolve_pdf_url_def csv_direct_def csv_eq)
next
  case nocsv: False
  then have csv: "csv_direct row n = (None, n)" by (simp add: csv_direct_def)
  from nocsv have np: "\<not> truthy (por (por (row ''pdf_url'') (row ''pdf'')) None)"
    by (auto simp: por_def truthy_def)
  define source where "source = lower (str_of (row ''source''))"
  define ident where "ident = str_of (por (por (row ''id'') (row ''article_id'')) (Some []))"
  define A where "A \<longleftrightarrow> source = ''arxiv'' \<and> ident \<noteq> [] \<and> contains ident ''arxiv.org/abs/''"
  define B where "B \<longleftrightarrow> source = ''arxiv'' \<and> ident \<noteq> [] \<and> startswith ident ''arXiv:''"
  have sc: "source_construct row n =
      (if A then
           (let pdf_link = replace ident ''/abs/'' ''/pdf/'' in
            Some (Some (if \<not> endswith pdf_link ''.pdf'' then pdf_link @ ''.pdf'' else pdf_link),
                  ''arxiv_construct''))
         else if B then
           (let aid = drop 1 (dropWhile (\<lambda>c. c \<noteq> CHR '':'') ident) in
            Some (Some (''https://arxiv.org/pdf/'' @ aid @ ''.pdf''), ''arxiv_construct''))
         else None, n)"
    using source_construct_eq [of row n] source_construct_snd [of row n]
    unfolding Let_def source_def [symmetric] ident_def [symmetric] A_def [symmetric]
      B_def [symmetric]
    by (cases "source_construct row n") simp
  have rs: "resolve_pdf_url row email n =
      (if A then
           (let pdf_link = replace ident ''/abs/'' ''/pdf/'' in
            ((Some (if \<not> endswith pdf_link ''.pdf'' then pdf_link @ ''.pdf'' else pdf_link),
                  ''arxiv_construct''), n))
         else if B then
           (let aid = drop 1 (dropWhile (\<lambda>c. c \<noteq> CHR '':'') ident) in
            ((Some (''https://arxiv.org/pdf/'' @ aid @ ''.pdf''), ''arxiv_construct''), n))
         else resolve_by_doi row email n)"
    using np
    unfolding resolve_pdf_url_def Let_def source_def [symmetric] ident_def [symmetric]
      A_def [symmetric] B_def [symmetric]
    by simp
  show ?thesis
    unfolding rs using csv sc by (simp add: by_doi_chain Let_def)
qed

lemma try_resolve_chain:
  "try_resolve_pdf_url candidate_url doi email n =
     first_success [api_lookup_scraper doi email, content_negotiation_scraper candidate_url,
                    candidate_probe_scraper candidate_url, landing_scrape_scraper candidate_url] n"
proof -
  obtain pdf n1 where u: "(if truthy doi \<and> truthy email
      then unpaywall_pdf_for_doi_scraper doi email n else (None, n)) = (pdf, n1)"
    by (cases "(if truthy doi \<and> truthy email
      then unpaywall_pdf_for_doi_scraper doi email n else (None, n))")
  obtain dn n2 where c: "(if is_doi_url candidate_url then negotiate (str_of candidate_url) n1
                   else (None, n1)) = (dn, n2)"
    by (cases "(if is_doi_url candidate_url then negotiate (str_of candidate_url) n1
                   else (None, n1))")
  obtain rp n3 where h: "http (Request Candidate_probe HEAD (str_of candidate_url)) n2 = (rp, n3)"
    by (cases "http (Request Candidate_probe HEAD (str_of candidate_url)) n2")
  have a: "api_lookup_scraper doi email n = (if truthy pdf then pdf else None, n1)"
    using u unfolding api_lookup_scraper_def by (auto simp: truthy_def split: if_splits)
  have b: "content_negotiation_scraper candidate_url n1 = (dn, n2)"
    using c unfolding content_negotiation_scraper_def by simp
  have t: "truthy pdf \<Longrightarrow> \<exists>p. pdf = Some p" by (cases pdf) (simp_all add: truthy_def)
  have "try_resolve_pdf_url candidate_url doi email n =
      (if truthy pdf then (pdf, n1)
       else case dn of Some final \<Rightarrow> (Some final, n2)
            | None \<Rightarrow>
                if \<not> truthy candidate_url then (None, n2)
                else (case rp of
                        Failed m \<Rightarrow> scrape_landing (str_of candidate_url) n3
                      | Reply h \<Rightarrow>
                          if contains (lower (str_of (r_ctype h))) ''pdf'' then (Some (r_url h), n3)
                          else scrape_landing (str_of candidate_url) n3))"
    unfolding try_resolve_pdf_url_def u prod.case c h
    by (cases dn; cases rp) simp_all
  then show ?thesis
    using a b h t
    by (cases dn; cases rp)
      (auto simp: candidate_probe_scraper_def landing_scrape_scraper_def
        split: prod.splits option.splits)
qed

lemma emits_csv_direct: "emits k (csv_direct row)"
  by (rule emits_none) (rule csv_direct_snd)

lemma emits_source_construct: "emits k (source_construct row)"
  by (rule emits_none) (rule source_construct_snd)

lemma api_lookup_calls:
  "calls (snd (api_lookup row email n)) =
     calls n @ (if truthy (row ''doi'') \<and> truthy email
                then [Request Api_lookup GET
                        (''https://api.unpaywall.org/v2/'' @ quote_plus (str_of (row ''doi'')))]
                else [])"
proof (cases "truthy (row ''doi'') \<and> truthy email")
  case True
  then have ne: "str_of (row ''doi'') \<noteq> []" by (simp add: str_of_nonempty)
  obtain up n1 where u: "unpaywall_pdf_for_doi (str_of (row ''doi'')) email n = (up, n1)"
    by (cases "unpaywall_pdf_for_doi (str_of (row ''doi'')) email n")
  with True have "snd (api_lookup row email n) = n1" by (simp add: api_lookup_def)
  moreover from u ne True unpaywall_calls [of "str_of (row ''doi'')" email n]
  have "calls n1 = calls n @ [Request Api_lookup GET
                        (''https://api.unpaywall.org/v2/'' @ quote_plus (str_of (row ''doi'')))]"
    by simp
  ultimately show ?thesis using True by simp
next
  case False
  then show ?thesis by (auto simp: api_lookup_def)
qed

lemma emits_api_lookup: "emits 3 (api_lookup row email)"
  unfolding emits_def by (simp add: api_lookup_calls)

lemma emits_content_negotiation: "emits 4 (content_negotiation row)"
  unfolding emits_def
proof
  fix n
  from negotiation_calls [of "str_of (row ''doi'')" n]
  show "\<exists>xs. calls (snd (content_negotiation row n)) = calls n @ xs
             \<and> (\<forall>q \<in> set xs. rank (stage_of q) = 4)"
    by (auto simp: content_negotiation_def split: prod.splits)
qed

lemma emits_candidate_probe: "emits 5 (candidate_probe row)"
  unfolding emits_def
proof
  fix n
  from head_loop_calls [of "candidates_of row" n]
  show "\<exists>xs. calls (snd (candidate_probe row n)) = calls n @ xs
             \<and> (\<forall>q \<in> set xs. rank (stage_of q) = 5)"
    by (auto simp: candidate_probe_def split: prod.splits)
qed

lemma emits_landing_scrape: "emits 6 (landing_scrape row)"
  unfolding emits_def
proof
  fix n
  from landing_loop_calls [of "candidates_of row" n]
  show "\<exists>xs. calls (snd (landing_scrape row n)) = calls n @ xs
             \<and> (\<forall>q \<in> set xs. rank (stage_of q) = 6)"
    by (auto simp: landing_scrape_def)
qed

lemma api_lookup_scraper_calls:
  "calls (snd (api_lookup_scraper doi email n)) =
     calls n @ (if truthy doi \<and> truthy email
                then [Request Api_lookup GET (''https://api.unpaywall.org/v2/'' @ str_of doi)]
                else [])"
proof (cases "truthy doi \<and> truthy email")
  case True
  obtain up n1 where u: "unpaywall_pdf_for_doi_scraper doi email n = (up, n1)"
    by (cases "unpaywall_pdf_for_doi_scraper doi email n")
  with True have "snd (api_lookup_scraper doi email n) = n1" by (simp add: api_lookup_scraper_def)
  moreover from u True unpaywall_scraper_calls [of doi email n]
  have "calls n1 = calls n @ [Request Api_lookup GET
                        (''https://api.unpaywall.org/v2/'' @ str_of doi)]"
    by simp
  ultimately show ?thesis using True by simp
next
  case False
  then show ?thesis by (auto simp: api_lookup_scraper_def)
qed

lemma emits_api_lookup_scraper: "emits 3 (api_lookup_scraper doi email)"
  unfolding emits_def by (simp add: api_lookup_scraper_calls)

lemma emits_content_negotiation_scraper: "emits 4 (content_negotiation_scraper c)"
  unfolding emits_def
proof
  fix n
  from negotiate_calls [of "str_of c" n]
  show "\<exists>xs. calls (snd (content_negotiation_scraper c n)) = calls n @ xs
             \<and> (\<forall>q \<in> set xs. rank (stage_of q) = 4)"
    by (auto simp: content_negotiation_scraper_def)
qed

lemma emits_candidate_probe_scraper: "emits 5 (candidate_probe_scraper c)"
  unfolding emits_def
proof
  fix n
  from http_calls [of "Request Candidate_probe HEAD (str_of c)" n]
  show "\<exists>xs. calls (snd (candidate_probe_scraper c n)) = calls n @ xs
             \<and> (\<forall>q \<in> set xs. rank (stage_of q) = 5)"
    by (auto simp: candidate_probe_scraper_def split: prod.splits reply.splits)
qed

lemma emits_landing_scrape_scraper: "emits 6 (landing_scrape_scraper c)"
  unfolding emits_def
proof
  fix n
  from scrape_landing_calls [of "str_of c" n]
  show "\<exists>xs. calls (snd (landing_scrape_scraper c n)) = calls n @ xs
             \<and> (\<forall>q \<in> set xs. rank (stage_of q) = 6)"
    by (auto simp: landing_scrape_scraper_def)
qed

lemma rank_api: "rank st \<le> 3 \<Longrightarrow> st = Api_lookup"
  by (cases st) simp_all

lemma sorted_hd_api:
  assumes "sorted (map (\<lambda>q. rank (stage_of q)) xs)" and "q \<in> set xs" and "stage_of q = Api_lookup"
  shows "stage_of (hd xs) = Api_lookup"
proof (cases xs)
  case Nil
  with assms show ?thesis by simp
next
  case (Cons x xs')
  with assms have "rank (stage_of x) \<le> rank (stage_of q)" by auto
  with assms(3) have "rank (stage_of x) \<le> 3" by simp
  with Cons show ?thesis by (simp add: rank_api)
qed

lemma first_success_extends:
  assumes "list_all2 emits ks ss" and "sorted ks"
  shows "\<exists>xs. calls (snd (first_success ss n)) = calls n @ xs"
  using first_success_sorted [OF assms, of n] by blast

lemma first_success_head:
  assumes "s n = (v, n1)" and "calls n1 = calls n @ [q]"
    and "list_all2 emits ks ss" and "sorted ks"
  shows "\<exists>xs. calls (snd (first_success (s # ss) n)) = calls n @ q # xs"
proof (cases v)
  case None
  from first_success_extends [OF assms(3,4), of n1] obtain xs where
    "calls (snd (first_success ss n1)) = calls n1 @ xs" by blast
  with None assms(1,2) show ?thesis by simp
next
  case (Some found)
  with assms(1,2) show ?thesis by simp
qed

lemma resolve_snd:
  "snd (resolve_pdf_url row email n) =
     snd (first_success [csv_direct row, source_construct row, api_lookup row email,
                         content_negotiation row, candidate_probe row, landing_scrape row] n)"
  by (simp add: resolve_chain split: prod.splits option.splits)

lemma tail_emits:
  "list_all2 emits [4, 5, 6] [content_negotiation row, candidate_probe row, landing_scrape row]"
  by (simp add: emits_content_negotiation emits_candidate_probe emits_landing_scrape)

lemma tail_emits_scraper:
  "list_all2 emits [4, 5, 6] [content_negotiation_scraper c, candidate_probe_scraper c,
                             landing_scrape_scraper c]"
  by (simp add: emits_content_negotiation_scraper emits_candidate_probe_scraper
      emits_landing_scrape_scraper)

lemma resolve_calls:
  "\<exists>xs. calls (snd (resolve_pdf_url row email n)) = calls n @ xs
        \<and> sorted (map (\<lambda>q. rank (stage_of q)) xs)
        \<and> (truthy (row ''doi'') \<and> truthy email \<and> xs \<noteq> [] \<longrightarrow> stage_of (hd xs) = Api_lookup)"
proof -
  let ?ss = "[csv_direct row, source_construct row, api_lookup row email,
              content_negotiation row, candidate_probe row, landing_scrape row]"
  have e: "list_all2 emits [1, 2, 3, 4, 5, 6] ?ss"
    using tail_emits [of row]
    by (simp add: emits_csv_direct emits_source_construct emits_api_lookup)
  from first_success_sorted [OF e, of n] obtain xs where
    xs: "calls (snd (first_success ?ss n)) = calls n @ xs"
      "sorted (map (\<lambda>q. rank (stage_of q)) xs)"
    by auto
  have "stage_of (hd xs) = Api_lookup" if t: "truthy (row ''doi'') \<and> truthy email" and ne: "xs \<noteq> []"
  proof -
    define q where "q = Request Api_lookup GET
                        (''https://api.unpaywall.org/v2/'' @ quote_plus (str_of (row ''doi'')))"
    obtain a where a: "csv_direct row n = (a, n)"
      using csv_direct_snd [of row n] by (cases "csv_direct row n") simp
    obtain b where b: "source_construct row n = (b, n)"
      using source_construct_snd [of row n] by (cases "source_construct row n") simp
    obtain v n1 where c: "api_lookup row email n = (v, n1)" by (cases "api_lookup row email n")
    with t api_lookup_calls [of row email n] have c1: "calls n1 = calls n @ [q]"
      by (simp add: q_def)
    from first_success_head [where s = "api_lookup row email" and n = n, OF c c1 tail_emits [of row]]
    obtain ys where
      ys: "calls (snd (first_success (api_lookup row email # [content_negotiation row,
             candidate_probe row, landing_scrape row]) n)) = calls n @ q # ys"
      by auto
    have "snd (first_success ?ss n) = n \<or> snd (first_success ?ss n) =
      snd (first_success (api_lookup row email # [content_negotiation row,
             candidate_probe row, landing_scrape row]) n)"
      using a b by (cases a; cases b) simp_all
    with xs(1) ne ys have "xs = q # ys" by auto
    then have "q \<in> set xs" by simp
    from sorted_hd_api [OF xs(2) this] show ?thesis by (simp add: q_def)
  qed
  with xs show ?thesis unfolding resolve_snd by blast
qed

lemma try_resolve_calls:
  "\<exists>xs. calls (snd (try_resolve_pdf_url candidate_url doi email n)) = calls n @ xs
        \<and> sorted (map (\<lambda>q. rank (stage_of q)) xs)
        \<and> (truthy doi \<and> truthy email \<and> xs \<noteq> [] \<longrightarrow> stage_of (hd xs) = Api_lookup)"
proof -
  let ?ss = "[api_lookup_scraper doi email, content_negotiation_scraper candidate_url,
              candidate_probe_scraper candidate_url, landing_scrape_scraper candidate_url]"
  have e: "list_all2 emits [3, 4, 5, 6] ?ss"
    using tail_emits_scraper [of candidate_url] by (simp add: emits_api_lookup_scraper)
  from first_success_sorted [OF e, of n] obtain xs where
    xs: "calls (snd (first_success ?ss n)) = calls n @ xs"
      "sorted (map (\<lambda>q. rank (stage_of q)) xs)"
    by auto
  have "stage_of (hd xs) = Api_lookup" if t: "truthy doi \<and> truthy email"
  proof -
    define q where "q = Request Api_lookup GET (''https://api.unpaywall.org/v2/'' @ str_of doi)"
    obtain v n1 where c: "api_lookup_scraper doi email n = (v, n1)"
      by (cases "api_lookup_scraper doi email n")
    with t api_lookup_scraper_calls [of doi email n] have c1: "calls n1 = calls n @ [q]"
      by (simp add: q_def)
    from first_success_head [where s = "api_lookup_scraper doi email" and n = n, OF c c1
        tail_emits_scraper [of candidate_url]]
    obtain ys where
      "calls (snd (first_success ?ss n)) = calls n @ q # ys"
      by auto
    with xs(1) have "xs = q # ys" by simp
    then show ?thesis by (simp add: q_def)
  qed
  with xs show ?thesis unfolding try_resolve_chain by blast
qed

lemma truthy_por: "truthy b \<Longrightarrow> truthy (por a b)"
  by (simp add: por_def)

lemma landing_loop_found:
  "fst (landing_loop cs n) = Some (u, m) \<Longrightarrow> m = ''landing_direct_pdf'' \<or> truthy u"
proof (induction cs arbitrary: n)
  case Nil
  then show ?case by simp
next
  case (Cons c cs)
  obtain rp n' where h: "http (Request Landing_scrape GET c) n = (rp, n')"
    by (cases "http (Request Landing_scrape GET c) n")
  show ?case
  proof (cases rp)
    case (Failed msg)
    with h Cons.prems have "fst (landing_loop cs n') = Some (u, m)" by simp
    then show ?thesis by (rule Cons.IH)
  next
    case (Reply r)
    define p where "p = extract_pdf_from_html (r_url r) (r_text r) (r_soup r)"
    show ?thesis
    proof (cases "contains (lower (str_of (r_ctype r))) ''pdf'' \<or> endswith (lower (r_url r)) ''.pdf''")
      case True
      with h Reply Cons.prems show ?thesis by (auto simp: Let_def)
    next
      case direct: False
      show ?thesis
      proof (cases "truthy p")
        case False
        with direct h Reply Cons.prems have "fst (landing_loop cs n') = Some (u, m)"
          by (simp add: Let_def p_def)
        then show ?thesis by (rule Cons.IH)
      next
        case True
        obtain v n'' where hv: "head_is_pdf Landing_scrape (str_of p) n' = (v, n'')"
          by (cases "head_is_pdf Landing_scrape (str_of p) n'")
        with True direct h Reply Cons.prems have "u = por v p"
          by (simp add: Let_def p_def)
        with True show ?thesis by (simp add: truthy_por)
      qed
    qed
  qed
qed

lemma candidates_found:
  assumes "fst (resolve_candidates row n) = (u, m)"
  shows "(u = None \<and> m = ''no_pdf_found'') \<or> m = ''landing_direct_pdf'' \<or> truthy u"
proof -
  obtain hpdf n3 where h: "head_loop (candidates_of row) n = (hpdf, n3)"
    by (cases "head_loop (candidates_of row) n")
  obtain lp n4 where l: "landing_loop (candidates_of row) n3 = (lp, n4)"
    by (cases "landing_loop (candidates_of row) n3")
  show ?thesis
  proof (cases "truthy hpdf")
    case True
    with h assms show ?thesis
      unfolding resolve_candidates_def candidates_of_def [symmetric] Let_def by simp
  next
    case False
    show ?thesis
    proof (cases lp)
      case None
      with False h l assms show ?thesis
        unfolding resolve_candidates_def candidates_of_def [symmetric] Let_def by simp
    next
      case (Some found)
      with False h l assms have "found = (u, m)"
        unfolding resolve_candidates_def candidates_of_def [symmetric] Let_def by simp
      with Some l landing_loop_found [of "candidates_of row" n3 u m] show ?thesis by simp
    qed
  qed
qed

lemma by_doi_found:
  assumes "fst (resolve_by_doi row email n) = (u, m)"
  shows "(u = None \<and> m = ''no_pdf_found'') \<or> m = ''landing_direct_pdf'' \<or> truthy u"
proof -
  define doi where "doi = str_of (por (row ''doi'') (Some []))"
  obtain up n1 where a: "(if doi \<noteq> [] \<and> truthy email then unpaywall_pdf_for_doi doi email n
             else (None, n)) = (up, n1)"
    by (cases "(if doi \<noteq> [] \<and> truthy email then unpaywall_pdf_for_doi doi email n
             else (None, n))")
  obtain dn n2 where c: "(if doi \<noteq> [] \<and> is_doi_like doi then try_doi_content_negotiation doi n1
                    else (None, n1)) = (dn, n2)"
    by (cases "(if doi \<noteq> [] \<and> is_doi_like doi then try_doi_content_negotiation doi n1
                    else (None, n1))")
  have r: "resolve_by_doi row email n =
      (if truthy up then ((up, ''unpaywall''), n1)
       else if truthy dn then ((dn, ''doi_negotiation''), n2)
       else resolve_candidates row n2)"
    unfolding resolve_by_doi_def doi_def [symmetric] Let_def a prod.case c by simp
  show ?thesis
  proof (cases "truthy up \<or> truthy dn")
    case True
    with r assms show ?thesis by (auto split: if_splits)
  next
    case False
    with r assms have "fst (resolve_candidates row n2) = (u, m)" by simp
    then show ?thesis by (rule candidates_found)
  qed
qed

lemma endswith_nonempty: "endswith s p \<Longrightarrow> p \<noteq> [] \<Longrightarrow> s \<noteq> []"
  by (auto simp: endswith_def)

lemma resolve_found:
  assumes "fst (resolve_pdf_url row email n) = (u, m)"
  shows "(u = None \<and> m = ''no_pdf_found'') \<or> m = ''landing_direct_pdf'' \<or> truthy u"
proof -
  define pdf where "pdf = por (por (row ''pdf_url'') (row ''pdf'')) None"
  define source where "source = lower (str_of (row ''source''))"
  define ident where "ident = str_of (por (por (row ''id'') (row ''article_id'')) (Some []))"
  define A where "A \<longleftrightarrow> source = ''arxiv'' \<and> ident \<noteq> [] \<and> contains ident ''arxiv.org/abs/''"
  define B where "B \<longleftrightarrow> source = ''arxiv'' \<and> ident \<noteq> [] \<and> startswith ident ''arXiv:''"
  define link where "link = replace ident ''/abs/'' ''/pdf/''"
  have r: "resolve_pdf_url row email n =
      (if truthy pdf then ((pdf, ''csv_pdf_url''), n)
       else if A then
           ((Some (if \<not> endswith link ''.pdf'' then link @ ''.pdf'' else link),
             ''arxiv_construct''), n)
       else if B then
           ((Some (''https://arxiv.org/pdf/'' @ drop 1 (dropWhile (\<lambda>c. c \<noteq> CHR '':'') ident)
                   @ ''.pdf''), ''arxiv_construct''), n)
       else resolve_by_doi row email n)"
    unfolding resolve_pdf_url_def Let_def
    unfolding pdf_def [symmetric] source_def [symmetric] ident_def [symmetric]
    unfolding A_def [symmetric] B_def [symmetric] link_def [symmetric]
    by (rule refl)
  have l: "(if \<not> endswith link ''.pdf'' then link @ ''.pdf'' else link) \<noteq> []"
    using endswith_nonempty [of link "''.pdf''"] by auto
  consider "truthy pdf" | "\<not> truthy pdf" "A" | "\<not> truthy pdf" "\<not> A" "B"
    | "\<not> truthy pdf" "\<not> A" "\<not> B" by blast
  then show ?thesis
  proof cases
    case 1
    with r have "resolve_pdf_url row email n = ((pdf, ''csv_pdf_url''), n)" by simp
    with assms have "u = pdf" by simp
    with 1 show ?thesis by simp
  next
    case 2
    with r have "resolve_pdf_url row email n =
      ((Some (if \<not> endswith link ''.pdf'' then link @ ''.pdf'' else link),
             ''arxiv_construct''), n)" by simp
    with assms have "u = Some (if \<not> endswith link ''.pdf'' then link @ ''.pdf'' else link)"
      by simp
    with l show ?thesis by (simp add: truthy_def)
  next
    case 3
    with r have "resolve_pdf_url row email n =
      ((Some (''https://arxiv.org/pdf/'' @ drop 1 (dropWhile (\<lambda>c. c \<noteq> CHR '':'') ident)
                   @ ''.pdf''), ''arxiv_construct''), n)" by simp
    with assms have "u = Some (''https://arxiv.org/pdf/''
        @ drop 1 (dropWhile (\<lambda>c. c \<noteq> CHR '':'') ident) @ ''.pdf'')"
      by simp
    then show ?thesis by (simp add: truthy_def)
  next
    case 4
    with r assms have "fst (resolve_by_doi row email n) = (u, m)" by simp
    then show ?thesis by (rule by_doi_found)
  qed
qed

text \<open>
  C1. The resolver of \<open>download_pdfs_from_csv.py\<close> is the chain of the six strategies in
  the order \<open>csv_direct\<close>, \<open>source_construct\<close>, \<open>api_lookup\<close>, \<open>content_negotiation\<close>,
  \<open>candidate_probe\<close>, \<open>landing_scrape\<close>: it returns the URL and the method of the first
  one that yields a result, and \<open>no_pdf_found\<close> when none does. The resolver of
  \<open>scraper.py\<close> is the chain of the last four. A URL returned with a method is not empty
  (for \<open>landing_direct_pdf\<close> it is the URL of the response, whatever it is). The requests
  a call adds to the list of calls are in the order of the stages, and for a record with a
  DOI and an email the first request, if there is any, is the one to Unpaywall, so that
  \<open>api_lookup\<close> comes before \<open>content_negotiation\<close>, which comes before
  \<open>landing_scrape\<close>.
\<close>

theorem resolver_order:
  "resolve_pdf_url row email n =
     (case first_success [csv_direct row, source_construct row, api_lookup row email,
                          content_negotiation row, candidate_probe row, landing_scrape row] n of
        (Some found, n') \<Rightarrow> (found, n')
      | (None, n') \<Rightarrow> ((None, ''no_pdf_found''), n'))
   \<and> try_resolve_pdf_url candidate_url doi email n =
       first_success [api_lookup_scraper doi email, content_negotiation_scraper candidate_url,
                      candidate_probe_scraper candidate_url,
                      landing_scrape_scraper candidate_url] n
   \<and> (\<forall>u m. fst (resolve_pdf_url row email n) = (u, m) \<longrightarrow>
         (u = None \<and> m = ''no_pdf_found'') \<or> m = ''landing_direct_pdf'' \<or> truthy u)
   \<and> (\<exists>xs. calls (snd (resolve_pdf_url row email n)) = calls n @ xs
          \<and> sorted (map (\<lambda>q. rank (stage_of q)) xs)
          \<and> (truthy (row ''doi'') \<and> truthy email \<and> xs \<noteq> [] \<longrightarrow>
               stage_of (hd xs) = Api_lookup))
   \<and> (\<exists>xs. calls (snd (try_resolve_pdf_url candidate_url doi email n)) = calls n @ xs
          \<and> sorted (map (\<lambda>q. rank (stage_of q)) xs)
          \<and> (truthy doi \<and> truthy email \<and> xs \<noteq> [] \<longrightarrow> stage_of (hd xs) = Api_lookup))"
  using resolve_chain [of row email n] try_resolve_chain [of candidate_url doi email n]
    resolve_found [of row email n] resolve_calls [of row email n]
    try_resolve_calls [of candidate_url doi email n]
  by blast

theorem resolver_order_witness:
  "truthy (doi_row ''doi'') \<and> truthy (Some ''you@domain.com'')
   \<and> fst (resolve_pdf_url doi_row (Some ''you@domain.com'') (script [Reply oa_answer]))
       = (Some ''https://x/y.pdf'', ''unpaywall'')
   \<and> truthy (Some ''https://x/y.pdf'')
   \<and> calls (snd (resolve_pdf_url doi_row (Some ''you@domain.com'') (script [Reply oa_answer])))
       = [Request Api_lookup GET ''https://api.unpaywall.org/v2/10.1000%2Fxyz'']
   \<and> stage_of (hd (calls (snd (resolve_pdf_url doi_row (Some ''you@domain.com'')
                                  (script [Reply oa_answer]))))) = Api_lookup
   \<and> truthy (Some ''10.1000/xyz'')
   \<and> calls (snd (try_resolve_pdf_url None (Some ''10.1000/xyz'') (Some ''you@domain.com'')
                     (script [Reply oa_answer])))
       = [Request Api_lookup GET ''https://api.unpaywall.org/v2/10.1000/xyz'']
   \<and> stage_of (hd (calls (snd (try_resolve_pdf_url None (Some ''10.1000/xyz'')
                                  (Some ''you@domain.com'') (script [Reply oa_answer])))))
       = Api_lookup"
proof -
  let ?n = "script [Reply oa_answer]"
  let ?e = "Some ''you@domain.com''"
  have 1: "truthy (doi_row ''doi'')" and 2: "truthy ?e"
    by (simp_all add: doi_row_def truthy_def)
  have 3: "fst (resolve_pdf_url doi_row ?e ?n) = (Some ''https://x/y.pdf'', ''unpaywall'')"
    by code_simp
  have 4: "calls (snd (resolve_pdf_url doi_row ?e ?n))
       = [Request Api_lookup GET ''https://api.unpaywall.org/v2/10.1000%2Fxyz'']"
    by code_simp
  have 0: "calls ?n = []" by (simp add: script_def)
  let ?d = "Some ''10.1000/xyz''"
  note t = resolver_order [of doi_row ?e ?n None ?d]
  from t 3 have 5: "truthy (Some ''https://x/y.pdf'')" by auto
  from t obtain xs where xs: "calls (snd (resolve_pdf_url doi_row ?e ?n)) = calls ?n @ xs"
     "truthy (doi_row ''doi'') \<and> truthy ?e \<and> xs \<noteq> [] \<longrightarrow> stage_of (hd xs) = Api_lookup"
    by blast
  from xs(1) 0 4 have "xs = calls (snd (resolve_pdf_url doi_row ?e ?n))" "xs \<noteq> []" by auto
  with xs(2) 1 2 have 6: "stage_of (hd (calls (snd (resolve_pdf_url doi_row ?e ?n)))) = Api_lookup"
    by simp
  have 7: "truthy ?d" by (simp add: truthy_def)
  have 8: "calls (snd (try_resolve_pdf_url None ?d ?e ?n))
       = [Request Api_lookup GET ''https://api.unpaywall.org/v2/10.1000/xyz'']"
    by code_simp
  from t obtain ys where ys: "calls (snd (try_resolve_pdf_url None ?d ?e ?n)) = calls ?n @ ys"
     "truthy ?d \<and> truthy ?e \<and> ys \<noteq> [] \<longrightarrow> stage_of (hd ys) = Api_lookup"
    by blast
  from ys(1) 0 8 have "ys = calls (snd (try_resolve_pdf_url None ?d ?e ?n))" "ys \<noteq> []" by auto
  with ys(2) 7 2 have 9: "stage_of (hd (calls (snd (try_resolve_pdf_url None ?d ?e ?n)))) = Api_lookup"
    by simp
  from 1 2 3 4 5 6 7 8 9 show ?thesis by blast
qed

section \<open>The check of a scraped link\<close>

text \<open>
  C6. On the page below the scrape finds the link \<open>/download/fulltext/1\<close>; the HEAD
  request for it is answered, with an HTML content type and an address that does not end
  in \<open>.pdf\<close>. The resolver of \<open>scraper.py\<close> then returns \<open>None\<close>: it keeps the
  unverified link only when the HEAD request raises. The resolver of
  \<open>download_pdfs_from_csv.py\<close>, on the same replies, returns the unverified link.
\<close>

theorem scraper_drops_unverified_candidate:
  "extract_pdf_from_html (r_url anchor_page) (r_text anchor_page) (r_soup anchor_page)
     = Some ''https://pub.example/download/fulltext/1''
   \<and> try_resolve_pdf_url (Some ''https://pub.example/article/1'') None None
         (script [Reply html_page, Reply anchor_page, Reply viewer_head])
     = (None,
        \<lparr>pending = [],
         calls = [Request Candidate_probe HEAD ''https://pub.example/article/1'',
                  Request Landing_scrape GET ''https://pub.example/article/1'',
                  Request Landing_scrape HEAD ''https://pub.example/download/fulltext/1'']\<rparr>)
   \<and> resolve_pdf_url article_row None
         (script [Reply html_page, Reply anchor_page, Reply viewer_head])
     = ((Some ''https://pub.example/download/fulltext/1'', ''landing_parsed''),
        \<lparr>pending = [],
         calls = [Request Candidate_probe HEAD ''https://pub.example/article/1'',
                  Request Landing_scrape GET ''https://pub.example/article/1'',
                  Request Landing_scrape HEAD ''https://pub.example/download/fulltext/1'']\<rparr>)"
  by code_simp

section \<open>The repair after a failed validation\<close>

lemma validate_calls:
  "calls (fst (snd (download_stream_and_validate url out_path n fs)))
     = calls n @ [Request Download GET url]"
proof -
  obtain rp n' where h: "http (Request Download GET url) n = (rp, n')"
    by (cases "http (Request Download GET url) n")
  have "fst (snd (download_stream_and_validate url out_path n fs)) = n'"
    using h unfolding download_stream_and_validate_def
    by (auto simp: Let_def split: reply.splits list.splits piece.splits prod.splits option.splits)
  with http_callsD [OF h] show ?thesis by simp
qed

lemma landing_loop_method:
  "fst (landing_loop cs n) = Some (u, m) \<Longrightarrow> m = ''landing_direct_pdf'' \<or> m = ''landing_parsed''"
proof (induction cs arbitrary: n)
  case Nil
  then show ?case by simp
next
  case (Cons c cs)
  obtain rp n' where h: "http (Request Landing_scrape GET c) n = (rp, n')"
    by (cases "http (Request Landing_scrape GET c) n")
  show ?case
  proof (cases rp)
    case (Failed msg)
    with h Cons.prems have "fst (landing_loop cs n') = Some (u, m)" by simp
    then show ?thesis by (rule Cons.IH)
  next
    case (Reply r)
    define p where "p = extract_pdf_from_html (r_url r) (r_text r) (r_soup r)"
    show ?thesis
    proof (cases "contains (lower (str_of (r_ctype r))) ''pdf'' \<or> endswith (lower (r_url r)) ''.pdf''")
      case True
      with h Reply Cons.prems show ?thesis by (auto simp: Let_def)
    next
      case direct: False
      show ?thesis
      proof (cases "truthy p")
        case False
        with direct h Reply Cons.prems have "fst (landing_loop cs n') = Some (u, m)"
          by (simp add: Let_def p_def)
        then show ?thesis by (rule Cons.IH)
      next
        case True
        obtain v n'' where hv: "head_is_pdf Landing_scrape (str_of p) n' = (v, n'')"
          by (cases "head_is_pdf Landing_scrape (str_of p) n'")
        with True direct h Reply Cons.prems show ?thesis
          by (simp add: Let_def p_def)
      qed
    qed
  qed
qed

lemma resolve_methods:
  assumes "fst (resolve_pdf_url row email n) = (u, m)"
  shows "m \<in> set [''csv_pdf_url'', ''arxiv_construct'', ''unpaywall'', ''doi_negotiation'',
                   ''head_pdf_candidate'', ''landing_direct_pdf'', ''landing_parsed'']
         \<or> (u = None \<and> m = ''no_pdf_found'')"
proof -
  let ?ss = "[csv_direct row, source_construct row, api_lookup row email,
              content_negotiation row, candidate_probe row, landing_scrape row]"
  obtain a where a: "csv_direct row n = (a, n)"
    using csv_direct_snd [of row n] by (cases "csv_direct row n") simp
  obtain b where b: "source_construct row n = (b, n)"
    using source_construct_snd [of row n] by (cases "source_construct row n") simp
  obtain c n1 where c: "api_lookup row email n = (c, n1)" by (cases "api_lookup row email n")
  obtain d n2 where d: "content_negotiation row n1 = (d, n2)"
    by (cases "content_negotiation row n1")
  obtain e n3 where e: "candidate_probe row n2 = (e, n3)" by (cases "candidate_probe row n2")
  obtain f n4 where f: "landing_scrape row n3 = (f, n4)" by (cases "landing_scrape row n3")
  have ma: "a = Some (u', m') \<Longrightarrow> m' = ''csv_pdf_url''" for u' m'
    using a by (auto simp: csv_direct_def split: if_splits)
  have mb: "b = Some (u', m') \<Longrightarrow> m' = ''arxiv_construct''" for u' m'
    using b by (auto simp: source_construct_def Let_def split: if_splits)
  have mc: "c = Some (u', m') \<Longrightarrow> m' = ''unpaywall''" for u' m'
    using c by (auto simp: api_lookup_def split: if_splits prod.splits)
  have md: "d = Some (u', m') \<Longrightarrow> m' = ''doi_negotiation''" for u' m'
    using d by (auto simp: content_negotiation_def split: if_splits prod.splits)
  have me: "e = Some (u', m') \<Longrightarrow> m' = ''head_pdf_candidate''" for u' m'
    using e by (auto simp: candidate_probe_def split: if_splits prod.splits)
  have mf: "f = Some (u', m') \<Longrightarrow> m' = ''landing_direct_pdf'' \<or> m' = ''landing_parsed''" for u' m'
    using f landing_loop_method [of "candidates_of row" n3 u' m']
    by (simp add: landing_scrape_def)
  have "fst (resolve_pdf_url row email n) =
      (case a of Some x \<Rightarrow> x | None \<Rightarrow>
       case b of Some x \<Rightarrow> x | None \<Rightarrow>
       case c of Some x \<Rightarrow> x | None \<Rightarrow>
       case d of Some x \<Rightarrow> x | None \<Rightarrow>
       case e of Some x \<Rightarrow> x | None \<Rightarrow>
       case f of Some x \<Rightarrow> x | None \<Rightarrow> (None, ''no_pdf_found''))"
    unfolding resolve_chain using a b c d e f
    by (cases a; cases b; cases c; cases d; cases e; cases f) simp_all
  with assms ma mb mc md me mf show ?thesis
    by (cases a; cases b; cases c; cases d; cases e; cases f) auto
qed

lemma eligible_methods:
  assumes "m \<in> set [''csv_pdf_url'', ''arxiv_construct'', ''unpaywall'', ''doi_negotiation'',
                     ''head_pdf_candidate'', ''landing_direct_pdf'', ''landing_parsed'']"
  shows "(contains m ''doi_negotiation'' \<or> contains m ''unpaywall'' \<or> contains m ''landing''
          \<or> contains m ''csv_pdf_url'')
         \<longleftrightarrow> m \<in> set [''csv_pdf_url'', ''unpaywall'', ''doi_negotiation'', ''landing_direct_pdf'',
                         ''landing_parsed'']"
proof -
  define P where "P = (\<lambda>m. (contains m ''doi_negotiation'' \<or> contains m ''unpaywall''
          \<or> contains m ''landing'' \<or> contains m ''csv_pdf_url'')
         \<longleftrightarrow> m \<in> set [''csv_pdf_url'', ''unpaywall'', ''doi_negotiation'', ''landing_direct_pdf'',
                         ''landing_parsed''])"
  have p: "P ''csv_pdf_url''" "P ''arxiv_construct''" "P ''unpaywall''" "P ''doi_negotiation''"
    "P ''head_pdf_candidate''" "P ''landing_direct_pdf''" "P ''landing_parsed''"
    unfolding P_def by code_simp+
  from assms have "m = ''csv_pdf_url'' \<or> m = ''arxiv_construct'' \<or> m = ''unpaywall''
    \<or> m = ''doi_negotiation'' \<or> m = ''head_pdf_candidate'' \<or> m = ''landing_direct_pdf''
    \<or> m = ''landing_parsed''"
    by simp
  with p have "P m" by blast
  then show ?thesis unfolding P_def .
qed

lemma process_row_failed:
  assumes r: "resolve_pdf_url (norm_of row) email n = ((resolved, method), n1)"
    and t: "truthy resolved"
    and v: "download_stream_and_validate (str_of resolved) out_file n1 fs = ((False, err), n2, fs2)"
    and h: "http (Request Repair GET (str_of resolved)) n2 = (rp, n3)"
    and c: "cand = (case rp of Failed x \<Rightarrow> None
                    | Reply p \<Rightarrow> extract_pdf_from_html (r_url p) (r_text p) (r_soup p))"
    and e: "error = method @ ''|'' @ (case err of None \<Rightarrow> ''None'' | Some x \<Rightarrow> x)"
  shows "process_row row email out_file n fs =
     (if contains method ''doi_negotiation'' \<or> contains method ''unpaywall''
         \<or> contains method ''landing'' \<or> contains method ''csv_pdf_url''
      then
        if truthy cand then
          (case download_stream_and_validate (str_of cand) out_file n3 fs2 of
             ((ok2, err2), n4, fs4) \<Rightarrow>
               (\<lparr>pdf_url_used = str_of cand, saved_path = (if ok2 then out_file else []),
                 download_error = (if ok2 then [] else error)\<rparr>, n4, fs4))
        else (\<lparr>pdf_url_used = str_of resolved, saved_path = [], download_error = error\<rparr>,
              n3, fs2)
      else (\<lparr>pdf_url_used = str_of resolved, saved_path = [], download_error = error\<rparr>,
            n2, fs2))"
  unfolding process_row_def r prod.case Let_def v h c e
  using t by (cases rp) (auto simp: truthy_def split: prod.splits)

text \<open>
  C9, as stated, fails for \<open>download_for_topic\<close> of \<open>scraper.py\<close>: the URL below is
  resolved through Unpaywall, its validation fails with \<open>not_pdf\<close>, and the failure is
  recorded at once. No request follows the download, although two replies are left.
\<close>

theorem topic_downloader_repair_counterexample:
  "fst (process_work doi_work (Some ''you@domain.com'') ''out/a.pdf''
          (script [Reply oa_answer, Reply html_page, Reply meta_page, Reply pdf_file]) Map.empty)
     = \<lparr>pdf_url_used = ''https://x/y.pdf'', saved_path = [], download_error = ''not_pdf''\<rparr>
   \<and> fst (snd (process_work doi_work (Some ''you@domain.com'') ''out/a.pdf''
          (script [Reply oa_answer, Reply html_page, Reply meta_page, Reply pdf_file]) Map.empty))
     = \<lparr>pending = [Reply meta_page, Reply pdf_file],
        calls = [Request Api_lookup GET ''https://api.unpaywall.org/v2/10.1000/xyz'',
                 Request Download GET ''https://x/y.pdf'']\<rparr>"
  by code_simp

text \<open>
  C9, amended: the repair is that of \<open>process_csv\<close>. When a row resolves to a URL whose
  validation fails, the method is one of the seven of the resolver. For \<open>csv_pdf_url\<close>,
  \<open>unpaywall\<close>, \<open>doi_negotiation\<close>, \<open>landing_direct_pdf\<close> and \<open>landing_parsed\<close> the
  program makes exactly one more GET of the resolved URL and scrapes the answer with the
  final URL of that answer; when the scrape yields a candidate it validates the candidate
  once, saves under the same path on success and keeps the first error otherwise, so that
  the requests after the failed validation are that GET and that one download; when the
  scrape yields nothing, or the GET fails, the first error stands after the GET alone. For
  \<open>arxiv_construct\<close> and \<open>head_pdf_candidate\<close> there is no repair.
\<close>

theorem repair_once:
  assumes r: "resolve_pdf_url (norm_of row) email n = ((resolved, method), n1)"
    and t: "truthy resolved"
    and v: "download_stream_and_validate (str_of resolved) out_file n1 fs = ((False, err), n2, fs2)"
    and h: "http (Request Repair GET (str_of resolved)) n2 = (rp, n3)"
    and c: "cand = (case rp of Failed x \<Rightarrow> None
                    | Reply p \<Rightarrow> extract_pdf_from_html (r_url p) (r_text p) (r_soup p))"
    and e: "error = method @ ''|'' @ (case err of None \<Rightarrow> ''None'' | Some x \<Rightarrow> x)"
  shows "method \<in> set [''csv_pdf_url'', ''arxiv_construct'', ''unpaywall'', ''doi_negotiation'',
                        ''head_pdf_candidate'', ''landing_direct_pdf'', ''landing_parsed'']
    \<and> (method \<in> set [''csv_pdf_url'', ''unpaywall'', ''doi_negotiation'', ''landing_direct_pdf'',
                        ''landing_parsed''] \<and> truthy cand \<longrightarrow>
         process_row row email out_file n fs =
           (case download_stream_and_validate (str_of cand) out_file n3 fs2 of
              ((ok2, err2), n4, fs4) \<Rightarrow>
                (\<lparr>pdf_url_used = str_of cand, saved_path = (if ok2 then out_file else []),
                  download_error = (if ok2 then [] else error)\<rparr>, n4, fs4))
         \<and> calls (fst (snd (process_row row email out_file n fs))) =
             calls n2 @ [Request Repair GET (str_of resolved), Request Download GET (str_of cand)])
    \<and> (method \<in> set [''csv_pdf_url'', ''unpaywall'', ''doi_negotiation'', ''landing_direct_pdf'',
                        ''landing_parsed''] \<and> \<not> truthy cand \<longrightarrow>
         process_row row email out_file n fs =
           (\<lparr>pdf_url_used = str_of resolved, saved_path = [], download_error = error\<rparr>, n3, fs2)
         \<and> calls n3 = calls n2 @ [Request Repair GET (str_of resolved)])
    \<and> (method \<in> set [''arxiv_construct'', ''head_pdf_candidate''] \<longrightarrow>
         process_row row email out_file n fs =
           (\<lparr>pdf_url_used = str_of resolved, saved_path = [], download_error = error\<rparr>, n2, fs2))"
proof -
  from r have "fst (resolve_pdf_url (norm_of row) email n) = (resolved, method)" by simp
  from resolve_methods [OF this] t
  have m: "method \<in> set [''csv_pdf_url'', ''arxiv_construct'', ''unpaywall'', ''doi_negotiation'',
                        ''head_pdf_candidate'', ''landing_direct_pdf'', ''landing_parsed'']"
    by (auto simp: truthy_def)
  note el = eligible_methods [OF m]
  note pr = process_row_failed [OF r t v h c e]
  note c3 = http_callsD [OF h]
  have inel: "method \<in> set [''arxiv_construct'', ''head_pdf_candidate''] \<Longrightarrow>
      method \<notin> set [''csv_pdf_url'', ''unpaywall'', ''doi_negotiation'', ''landing_direct_pdf'',
                        ''landing_parsed'']"
    by auto
  have a: "process_row row email out_file n fs =
           (case download_stream_and_validate (str_of cand) out_file n3 fs2 of
              ((ok2, err2), n4, fs4) \<Rightarrow>
                (\<lparr>pdf_url_used = str_of cand, saved_path = (if ok2 then out_file else []),
                  download_error = (if ok2 then [] else error)\<rparr>, n4, fs4))"
    if "method \<in> set [''csv_pdf_url'', ''unpaywall'', ''doi_negotiation'', ''landing_direct_pdf'',
                        ''landing_parsed''] \<and> truthy cand"
    using that el pr by simp
  have a2: "calls (fst (snd (process_row row email out_file n fs))) =
             calls n2 @ [Request Repair GET (str_of resolved), Request Download GET (str_of cand)]"
    if "method \<in> set [''csv_pdf_url'', ''unpaywall'', ''doi_negotiation'', ''landing_direct_pdf'',
                        ''landing_parsed''] \<and> truthy cand"
  proof -
    have "fst (snd (process_row row email out_file n fs)) =
        fst (snd (download_stream_and_validate (str_of cand) out_file n3 fs2))"
      unfolding a [OF that] by (simp split: prod.splits)
    with validate_calls [of "str_of cand" out_file n3 fs2] c3 show ?thesis by simp
  qed
  have b: "process_row row email out_file n fs =
           (\<lparr>pdf_url_used = str_of resolved, saved_path = [], download_error = error\<rparr>, n3, fs2)"
    if "method \<in> set [''csv_pdf_url'', ''unpaywall'', ''doi_negotiation'', ''landing_direct_pdf'',
                        ''landing_parsed''] \<and> \<not> truthy cand"
    using that el pr by simp
  have d: "process_row row email out_file n fs =
           (\<lparr>pdf_url_used = str_of resolved, saved_path = [], download_error = error\<rparr>, n2, fs2)"
    if "method \<in> set [''arxiv_construct'', ''head_pdf_candidate'']"
    using inel [OF that] el pr by simp
  from m a a2 b c3 d show ?thesis by blast
qed

theorem repair_once_witness:
  "resolve_pdf_url (norm_of doi_row) (Some ''you@domain.com'')
       (script [Reply oa_answer, Reply html_page, Reply meta_page, Reply pdf_file])
     = ((Some ''https://x/y.pdf'', ''unpaywall''),
        \<lparr>pending = [Reply html_page, Reply meta_page, Reply pdf_file],
         calls = [Request Api_lookup GET ''https://api.unpaywall.org/v2/10.1000%2Fxyz'']\<rparr>)
   \<and> truthy (Some ''https://x/y.pdf'')
   \<and> fst (download_stream_and_validate ''https://x/y.pdf'' ''out/a.pdf''
             \<lparr>pending = [Reply html_page, Reply meta_page, Reply pdf_file],
              calls = [Request Api_lookup GET ''https://api.unpaywall.org/v2/10.1000%2Fxyz'']\<rparr>
             Map.empty) = (False, Some ''not_pdf'')
   \<and> ''unpaywall'' \<in> set [''csv_pdf_url'', ''unpaywall'', ''doi_negotiation'',
                            ''landing_direct_pdf'', ''landing_parsed'']
   \<and> truthy (Some ''https://pub.example/f/paper.pdf'')
   \<and> fst (process_row doi_row (Some ''you@domain.com'') ''out/a.pdf''
             (script [Reply oa_answer, Reply html_page, Reply meta_page, Reply pdf_file]) Map.empty)
       = \<lparr>pdf_url_used = ''https://pub.example/f/paper.pdf'', saved_path = ''out/a.pdf'',
          download_error = []\<rparr>
   \<and> calls (fst (snd (process_row doi_row (Some ''you@domain.com'') ''out/a.pdf''
             (script [Reply oa_answer, Reply html_page, Reply meta_page, Reply pdf_file])
             Map.empty)))
       = [Request Api_lookup GET ''https://api.unpaywall.org/v2/10.1000%2Fxyz'',
          Request Download GET ''https://x/y.pdf'',
          Request Repair GET ''https://x/y.pdf'',
          Request Download GET ''https://pub.example/f/paper.pdf'']"
proof -
  let ?e = "Some ''you@domain.com''"
  let ?n = "script [Reply oa_answer, Reply html_page, Reply meta_page, Reply pdf_file]"
  let ?api = "Request Api_lookup GET ''https://api.unpaywall.org/v2/10.1000%2Fxyz''"
  let ?n1 = "\<lparr>pending = [Reply html_page, Reply meta_page, Reply pdf_file], calls = [?api]\<rparr>"
  let ?n2 = "\<lparr>pending = [Reply meta_page, Reply pdf_file],
             calls = [?api, Request Download GET ''https://x/y.pdf'']\<rparr>"
  let ?n3 = "\<lparr>pending = [Reply pdf_file],
             calls = [?api, Request Download GET ''https://x/y.pdf'',
                      Request Repair GET ''https://x/y.pdf'']\<rparr>"
  have r: "resolve_pdf_url (norm_of doi_row) ?e ?n = ((Some ''https://x/y.pdf'', ''unpaywall''), ?n1)"
    by code_simp
  have t: "truthy (Some ''https://x/y.pdf'')" by (simp add: truthy_def)
  have v: "download_stream_and_validate (str_of (Some ''https://x/y.pdf'')) ''out/a.pdf'' ?n1
             Map.empty = ((False, Some ''not_pdf''), ?n2, Map.empty)"
    by (simp add: download_stream_and_validate_def http_def html_page_def blank_def
        http_error_def endswith_def lower_def lower_char_def startswith_def str_of_def)
  have h: "http (Request Repair GET (str_of (Some ''https://x/y.pdf''))) ?n2
             = (Reply meta_page, ?n3)"
    by (simp add: http_def str_of_def)
  have c: "Some ''https://pub.example/f/paper.pdf'' =
      (case Reply meta_page of Failed x \<Rightarrow> None
       | Reply p \<Rightarrow> extract_pdf_from_html (r_url p) (r_text p) (r_soup p))"
    by code_simp
  have e: "''unpaywall|not_pdf'' =
      ''unpaywall'' @ ''|'' @ (case Some ''not_pdf'' of None \<Rightarrow> ''None'' | Some x \<Rightarrow> x)"
    by simp
  have el: "''unpaywall'' \<in> set [''csv_pdf_url'', ''unpaywall'', ''doi_negotiation'',
                            ''landing_direct_pdf'', ''landing_parsed'']"
    by simp
  have tc: "truthy (Some ''https://pub.example/f/paper.pdf'')" by (simp add: truthy_def)
  have v2: "download_stream_and_validate (str_of (Some ''https://pub.example/f/paper.pdf''))
              ''out/a.pdf'' ?n3 Map.empty
            = ((True, None),
               \<lparr>pending = [],
                calls = [?api, Request Download GET ''https://x/y.pdf'',
                         Request Repair GET ''https://x/y.pdf'',
                         Request Download GET ''https://pub.example/f/paper.pdf'']\<rparr>,
               [''out/a.pdf'' \<mapsto> ''%PDF-1.7 body''])"
    by (simp add: download_stream_and_validate_def http_def pdf_file_def blank_def
        http_error_def endswith_def lower_def lower_char_def startswith_def str_of_def)
  note th = repair_once [OF r t v h c e]
  from th el tc have p: "process_row doi_row ?e ''out/a.pdf'' ?n Map.empty =
           (case download_stream_and_validate (str_of (Some ''https://pub.example/f/paper.pdf''))
                   ''out/a.pdf'' ?n3 Map.empty of
              ((ok2, err2), n4, fs4) \<Rightarrow>
                (\<lparr>pdf_url_used = str_of (Some ''https://pub.example/f/paper.pdf''),
                  saved_path = (if ok2 then ''out/a.pdf'' else []),
                  download_error = (if ok2 then [] else ''unpaywall|not_pdf'')\<rparr>, n4, fs4))"
    by blast
  have 1: "fst (process_row doi_row ?e ''out/a.pdf'' ?n Map.empty)
       = \<lparr>pdf_url_used = ''https://pub.example/f/paper.pdf'', saved_path = ''out/a.pdf'',
          download_error = []\<rparr>"
    unfolding p v2 by (simp add: str_of_def)
  have 2: "calls (fst (snd (process_row doi_row ?e ''out/a.pdf'' ?n Map.empty)))
       = [?api, Request Download GET ''https://x/y.pdf'', Request Repair GET ''https://x/y.pdf'',
          Request Download GET ''https://pub.example/f/paper.pdf'']"
    unfolding p v2 by simp
  from v have 3: "fst (download_stream_and_validate ''https://x/y.pdf'' ''out/a.pdf'' ?n1
             Map.empty) = (False, Some ''not_pdf'')"
    by (simp add: str_of_def)
  from r t 3 el tc 1 2 show ?thesis by blast
qed

end
